theory Spec2Isabelle
  imports Main "HOL-Library.Word"
begin

unbundle bit_operations_syntax

section \<open>The Windows NT unexec (src/unexw32.c): data model\<close>

text \<open>
  The model is the 32-bit build: \<open>DWORD\<close>, \<open>DWORD_PTR\<close>, \<open>unsigned long\<close> and
  pointers are 32-bit unsigned values whose arithmetic wraps; \<open>WORD\<close> is 16 bits and
  \<open>BYTE\<close> 8 bits.  A \<open>PIMAGE_SECTION_HEADER\<close> into a section table is the index of
  the entry, and a \<open>NULL\<close> one is \<open>None\<close>.
\<close>

type_synonym BYTE = "8 word"
type_synonym WORD = "16 word"
type_synonym DWORD = "32 word"

text \<open>
  What ends the program, as a value: \<open>exit (1)\<close> after a printed diagnostic,
  \<open>abort ()\<close>, and behaviour the C code leaves undefined (a read or write outside
  an object, a \<open>NULL\<close> dereference).
\<close>

datatype diagnostic =
    UnknownEXEHeader string
  | FailedToFindNTHeader string
  | InvalidNTSignature DWORD string
  | InitializedDataNotInSingleSection
  | UninitializedDataNotInSingleSection
  | UninitializedStaticDataNotInSingleSection
  | BSSDataNotInSingleSection
  | FailedToOpen string

datatype fatal = Exit1 diagnostic | Abort | Undefined

text \<open>\<open>IMAGE_SECTION_HEADER\<close>, field by field in declaration order.\<close>

record section_header =
  Name :: "BYTE list"
  VirtualSize :: DWORD
  VirtualAddress :: DWORD
  SizeOfRawData :: DWORD
  PointerToRawData :: DWORD
  PointerToRelocations :: DWORD
  PointerToLinenumbers :: DWORD
  NumberOfRelocations :: WORD
  NumberOfLinenumbers :: WORD
  Characteristics :: DWORD

definition IMAGE_SCN_CNT_INITIALIZED_DATA :: DWORD where
  "IMAGE_SCN_CNT_INITIALIZED_DATA = 0x40"

definition IMAGE_SCN_CNT_UNINITIALIZED_DATA :: DWORD where
  "IMAGE_SCN_CNT_UNINITIALIZED_DATA = 0x80"

definition IMAGE_SIZEOF_SHORT_NAME :: nat where
  "IMAGE_SIZEOF_SHORT_NAME = 8"

subsection \<open>The section header as the bytes \<open>strcmp\<close> reads\<close>

definition le16 :: "WORD \<Rightarrow> BYTE list" where
  "le16 w = [ucast w, ucast (drop_bit 8 w)]"

definition le32 :: "DWORD \<Rightarrow> BYTE list" where
  "le32 w = [ucast w, ucast (drop_bit 8 w), ucast (drop_bit 16 w), ucast (drop_bit 24 w)]"

text \<open>
  The 40 bytes of one table entry in memory (little endian).  The name field is
  exactly 8 bytes: a shorter list is zero-padded, a longer one cut.
\<close>

definition name_field :: "section_header \<Rightarrow> BYTE list" where
  "name_field s =
     take IMAGE_SIZEOF_SHORT_NAME (Name s @ replicate IMAGE_SIZEOF_SHORT_NAME 0)"

definition section_bytes :: "section_header \<Rightarrow> BYTE list" where
  "section_bytes s =
     name_field s @ le32 (VirtualSize s) @ le32 (VirtualAddress s) @
     le32 (SizeOfRawData s) @ le32 (PointerToRawData s) @
     le32 (PointerToRelocations s) @ le32 (PointerToLinenumbers s) @
     le16 (NumberOfRelocations s) @ le16 (NumberOfLinenumbers s) @
     le32 (Characteristics s)"

definition bytes_of :: "string \<Rightarrow> BYTE list" where
  "bytes_of cs = map of_char cs"

text \<open>
  \<open>strcmp (m, name) == 0\<close>, where \<open>m\<close> is the memory from the first byte of the
  name field on and \<open>name\<close> a C string (its bytes up to the first NUL, the
  terminator implied).  Running off the modelled memory is \<open>None\<close>.
\<close>

fun strcmp_eq :: "BYTE list \<Rightarrow> BYTE list \<Rightarrow> bool option" where
  "strcmp_eq [] _ = None"
| "strcmp_eq (m # ms) [] = Some (m = 0)"
| "strcmp_eq (m # ms) (c # cs) =
     (if c = 0 then Some (m = 0)
      else if m = c then strcmp_eq ms cs
      else Some False)"

subsection \<open>\<open>find_section\<close>\<close>

text \<open>
  The loop of \<open>find_section\<close> from entry \<open>i\<close> on.  \<open>secs\<close> is what is left of the
  table, so the memory \<open>strcmp\<close> can reach from \<open>section->Name\<close> is the entries
  left, one after the other.
\<close>

fun find_section_from :: "nat \<Rightarrow> BYTE list \<Rightarrow> section_header list \<Rightarrow> fatal + nat option" where
  "find_section_from i name [] = Inr None"
| "find_section_from i name (s # ss) =
     (case strcmp_eq (concat (map section_bytes (s # ss))) name of
        None \<Rightarrow> Inl Undefined
      | Some True \<Rightarrow> Inr (Some i)
      | Some False \<Rightarrow> find_section_from (Suc i) name ss)"

definition find_section :: "string \<Rightarrow> section_header list \<Rightarrow> fatal + nat option" where
  "find_section name secs = find_section_from 0 (bytes_of name) secs"

subsection \<open>\<open>relocate_offset\<close>\<close>

datatype walk = Owner DWORD | Trailing

text \<open>
  The \<open>while\<close> loop of \<open>relocate_offset\<close>: \<open>src_section\<close> and \<open>dst_section\<close> advance
  together, so the two arguments are what is left of the two tables.  The loop
  reads \<open>*src_section\<close> before any test, which with no entry at all is a read
  past the table; \<open>*dst_section\<close> is read only by the final \<open>return\<close>.
\<close>

fun relocate_walk :: "DWORD \<Rightarrow> section_header list \<Rightarrow> section_header list \<Rightarrow> fatal + walk" where
  "relocate_walk offset [] ds = Inl Undefined"
| "relocate_walk offset (s # ss) ds =
     (if offset \<ge> PointerToRawData s then
        if offset < PointerToRawData s + SizeOfRawData s then
          (case ds of [] \<Rightarrow> Inl Undefined
           | d # _ \<Rightarrow> Inr (Owner (offset + (PointerToRawData d - PointerToRawData s))))
        else if ss = [] then Inr Trailing
        else relocate_walk offset ss (tl ds)
      else
        (case ds of [] \<Rightarrow> Inl Undefined
         | d # _ \<Rightarrow> Inr (Owner (offset + (PointerToRawData d - PointerToRawData s)))))"

text \<open>
  \<open>while (sec->PointerToRawData == 0) sec--;\<close> from the last entry of a table:
  the argument is the table reversed.  Stepping below the first entry is a read
  outside the table.
\<close>

fun back_to_raw :: "section_header list \<Rightarrow> fatal + section_header" where
  "back_to_raw [] = Inl Undefined"
| "back_to_raw (s # ss) = (if PointerToRawData s = 0 then back_to_raw ss else Inr s)"

definition relocate_offset :: "DWORD \<Rightarrow> section_header list \<Rightarrow> section_header list \<Rightarrow> fatal + DWORD" where
  "relocate_offset offset src dest =
     (case relocate_walk offset src dest of
        Inl e \<Rightarrow> Inl e
      | Inr (Owner r) \<Rightarrow> Inr r
      | Inr Trailing \<Rightarrow>
          (case back_to_raw (rev dest) of
             Inl e \<Rightarrow> Inl e
           | Inr d \<Rightarrow>
               (case back_to_raw (rev src) of
                  Inl e \<Rightarrow> Inl e
                | Inr s \<Rightarrow>
                    Inr (offset + (PointerToRawData d + SizeOfRawData d)
                         - (PointerToRawData s + SizeOfRawData s)))))"

section \<open>The images and the running process\<close>

text \<open>
  The fields of \<open>IMAGE_NT_HEADERS\<close> that \<open>unexw32.c\<close> reads or writes (file header,
  optional header, and entry \<open>IMAGE_DIRECTORY_ENTRY_DEBUG\<close> of the data directory).
  \<open>NumberOfSections\<close> is the length of the section table.
\<close>

record nt_headers =
  Signature :: DWORD
  PointerToSymbolTable :: DWORD
  SizeOfOptionalHeader :: WORD
  SizeOfInitializedData :: DWORD
  SizeOfUninitializedData :: DWORD
  ImageBase :: DWORD
  FileAlignment :: DWORD
  SizeOfHeaders :: DWORD
  CheckSum :: DWORD
  DebugVirtualAddress :: DWORD
  DebugSize :: DWORD

text \<open>
  A mapped executable: its bytes, and the headers the code reaches through
  \<open>PIMAGE_DOS_HEADER\<close>, \<open>PIMAGE_NT_HEADERS\<close> and \<open>IMAGE_FIRST_SECTION\<close>, held as
  records.  The header records are the current values of those fields; \<open>bytes\<close>
  is the whole mapping, the area under the headers as it was stored when copied.
\<close>

record image =
  bytes :: "BYTE list"
  e_magic :: WORD
  e_lfanew :: DWORD
  nt :: nt_headers
  sections :: "section_header list"

text \<open>\<open>file_data\<close> of \<open>w32common.h\<close>: name, size, and the mapping at \<open>file_base\<close>.\<close>

record file_data =
  name :: string
  size_bytes :: DWORD
  file_base :: DWORD
  mapping :: image

text \<open>
  The running process: the load address \<open>GetModuleHandle (NULL)\<close>, the boundary
  symbols of the regions to dump, and its memory.
\<close>

record process =
  module_base :: DWORD
  my_begdata :: DWORD
  my_edata :: DWORD
  my_begbss :: DWORD
  my_endbss :: DWORD
  my_begbss_static :: DWORD
  my_endbss_static :: DWORD
  memory :: "DWORD \<Rightarrow> BYTE"

definition IMAGE_DOS_SIGNATURE :: WORD where
  "IMAGE_DOS_SIGNATURE = 0x5A4D"

definition IMAGE_NT_SIGNATURE :: DWORD where
  "IMAGE_NT_SIGNATURE = 0x00004550"

text \<open>Sequencing of steps that may end the program.\<close>

definition seq :: "fatal + 'a \<Rightarrow> ('a \<Rightarrow> fatal + 'b) \<Rightarrow> fatal + 'b" where
  "seq m f = (case m of Inl e \<Rightarrow> Inl e | Inr x \<Rightarrow> f x)"

subsection \<open>Helpers that are not among the sources\<close>

text \<open>
  Modelled from the spec: \<open>ROUND_UP\<close> (a macro of \<open>w32common.h\<close>, which is not among
  the sources) rounds a size or offset up to the alignment boundary, that is to the
  next multiple of the alignment.
\<close>

definition ROUND_UP :: "nat \<Rightarrow> nat \<Rightarrow> nat" where
  "ROUND_UP p align = ((p + align - 1) div align) * align"

text \<open>The same on \<open>DWORD_PTR\<close> operands, the result cut to 32 bits.\<close>

definition ROUND_UP_W :: "DWORD \<Rightarrow> DWORD \<Rightarrow> DWORD" where
  "ROUND_UP_W p align = of_nat (ROUND_UP (unat p) (unat align))"

text \<open>
  Modelled from the spec: \<open>rva_to_section\<close> (defined in \<open>w32.c\<close>, which is not among
  the sources) scans the table for the section whose address range, virtual address
  up to virtual address plus virtual size, contains the given address, and returns
  the first one or \<open>NULL\<close>.
\<close>

definition rva_in_section :: "DWORD \<Rightarrow> section_header \<Rightarrow> bool" where
  "rva_in_section rva s =
     (unat (VirtualAddress s) \<le> unat rva \<and>
      unat rva < unat (VirtualAddress s) + unat (VirtualSize s))"

fun rva_to_section_from :: "nat \<Rightarrow> DWORD \<Rightarrow> section_header list \<Rightarrow> nat option" where
  "rva_to_section_from i rva [] = None"
| "rva_to_section_from i rva (s # ss) =
     (if rva_in_section rva s then Some i else rva_to_section_from (Suc i) rva ss)"

definition rva_to_section :: "DWORD \<Rightarrow> section_header list \<Rightarrow> nat option" where
  "rva_to_section rva secs = rva_to_section_from 0 rva secs"

subsection \<open>The address macros\<close>

definition RVA_TO_OFFSET :: "DWORD \<Rightarrow> section_header \<Rightarrow> DWORD" where
  "RVA_TO_OFFSET rva s = PointerToRawData s + (rva - VirtualAddress s)"

definition RVA_TO_SECTION_OFFSET :: "DWORD \<Rightarrow> section_header \<Rightarrow> DWORD" where
  "RVA_TO_SECTION_OFFSET rva s = rva - VirtualAddress s"

definition PTR_TO_RVA :: "process \<Rightarrow> DWORD \<Rightarrow> DWORD" where
  "PTR_TO_RVA proc ptr = ptr - module_base proc"

section \<open>\<open>get_section_info\<close>\<close>

text \<open>The cached globals that \<open>get_section_info\<close> sets and the dump reads.\<close>

record section_info =
  data_section :: "nat option"
  data_start :: DWORD
  data_size :: DWORD
  bss_section :: "nat option"
  bss_start :: DWORD
  bss_size :: DWORD
  extra_bss_size :: DWORD
  bss_section_static :: "nat option"
  bss_start_static :: DWORD
  bss_size_static :: DWORD
  extra_bss_size_static :: DWORD

text \<open>
  The initialized data: section \<open>EMDATA\<close> when the image has one, else the range
  from \<open>my_begdata\<close> to \<open>my_edata\<close>, which has to lie in one section.
\<close>

definition locate_data :: "process \<Rightarrow> image \<Rightarrow> fatal + (nat option \<times> DWORD \<times> DWORD)" where
  "locate_data proc img =
     seq (find_section ''EMDATA'' (sections img)) (\<lambda>found.
       case found of
         Some i \<Rightarrow>
           Inr (Some i,
                ImageBase (nt img) + VirtualAddress (sections img ! i),
                VirtualSize (sections img ! i))
       | None \<Rightarrow>
           let sec = rva_to_section (PTR_TO_RVA proc (my_begdata proc)) (sections img) in
           if sec \<noteq> rva_to_section (PTR_TO_RVA proc (my_edata proc)) (sections img)
           then Inl (Exit1 InitializedDataNotInSingleSection)
           else Inr (sec, my_begdata proc, my_edata proc - my_begdata proc))"

text \<open>
  One of the two bss ranges: its section (the one holding its first address), the
  check that its end is in the same section, and how much the raw data of that
  section will grow.  The growth reads the section header, so a range in no section
  at all is a \<open>NULL\<close> dereference.
\<close>

definition locate_bss ::
  "diagnostic \<Rightarrow> process \<Rightarrow> image \<Rightarrow> DWORD \<Rightarrow> DWORD \<Rightarrow> fatal + (nat option \<times> DWORD)" where
  "locate_bss diag proc img beg fin =
     (let sec = rva_to_section (PTR_TO_RVA proc beg) (sections img) in
      if sec \<noteq> rva_to_section (PTR_TO_RVA proc fin) (sections img)
      then Inl (Exit1 diag)
      else case sec of
             None \<Rightarrow> Inl Undefined
           | Some i \<Rightarrow>
               Inr (sec,
                    ROUND_UP_W (RVA_TO_SECTION_OFFSET (PTR_TO_RVA proc fin) (sections img ! i))
                               (FileAlignment (nt img))
                    - SizeOfRawData (sections img ! i)))"

text \<open>
  The overlap test on the two bss ranges; \<open>alpha\<close> is the build with \<open>_ALPHA_\<close>
  defined, which forces it.
\<close>

definition bss_overlap :: "bool \<Rightarrow> DWORD \<Rightarrow> DWORD \<Rightarrow> DWORD \<Rightarrow> DWORD \<Rightarrow> bool" where
  "bss_overlap alpha start sz start_static sz_static =
     (alpha \<or>
      (if start < start_static then start_static < start + sz
       else start < start_static + sz_static))"

definition get_section_info :: "bool \<Rightarrow> process \<Rightarrow> file_data \<Rightarrow> fatal + section_info" where
  "get_section_info alpha proc p_infile =
     (let img = mapping p_infile in
      if e_magic img \<noteq> IMAGE_DOS_SIGNATURE
      then Inl (Exit1 (UnknownEXEHeader (name p_infile)))
      else if file_base p_infile + e_lfanew img = 0
      then Inl (Exit1 (FailedToFindNTHeader (name p_infile)))
      else if Signature (nt img) \<noteq> IMAGE_NT_SIGNATURE
      then Inl (Exit1 (InvalidNTSignature (Signature (nt img)) (name p_infile)))
      else
        seq (locate_data proc img) (\<lambda>(dsec, dstart, dsize).
        seq (locate_bss UninitializedDataNotInSingleSection proc img
               (my_begbss proc) (my_endbss proc)) (\<lambda>(bsec, extra).
        seq (locate_bss UninitializedStaticDataNotInSingleSection proc img
               (my_begbss_static proc) (my_endbss_static proc)) (\<lambda>(ssec, extra_static).
          let start = my_begbss proc;
              sz = my_endbss proc - my_begbss proc;
              start_static = my_begbss_static proc;
              sz_static = my_endbss_static proc - my_begbss_static proc
          in
          if bss_overlap alpha start sz start_static sz_static
          then
            if bsec \<noteq> ssec then Inl (Exit1 BSSDataNotInSingleSection)
            else
              Inr \<lparr> data_section = dsec, data_start = dstart, data_size = dsize,
                    bss_section = bsec,
                    bss_start = min start start_static,
                    bss_size = max (my_endbss proc) (my_endbss_static proc)
                               - min start start_static,
                    extra_bss_size = max extra extra_static,
                    bss_section_static = None,
                    bss_start_static = start_static,
                    bss_size_static = sz_static,
                    extra_bss_size_static = 0 \<rparr>
          else
            Inr \<lparr> data_section = dsec, data_start = dstart, data_size = dsize,
                  bss_section = bsec, bss_start = start, bss_size = sz,
                  extra_bss_size = extra,
                  bss_section_static = ssec, bss_start_static = start_static,
                  bss_size_static = sz_static,
                  extra_bss_size_static = extra_static \<rparr>))))"

section \<open>\<open>copy_executable_and_dump_data\<close>\<close>

text \<open>
  Sizes fixed by the platform's declarations: the offset of \<open>OptionalHeader\<close> in
  \<open>IMAGE_NT_HEADERS\<close>, and the sizes of \<open>IMAGE_SECTION_HEADER\<close> and
  \<open>IMAGE_DEBUG_DIRECTORY\<close> with the offset of its \<open>PointerToRawData\<close>.
\<close>

definition OPTIONAL_HEADER_OFFSET :: nat where
  "OPTIONAL_HEADER_OFFSET = 24"

definition IMAGE_SIZEOF_SECTION_HEADER :: nat where
  "IMAGE_SIZEOF_SECTION_HEADER = 40"

definition IMAGE_SIZEOF_DEBUG_DIRECTORY :: nat where
  "IMAGE_SIZEOF_DEBUG_DIRECTORY = 28"

definition DEBUG_POINTER_TO_RAW_DATA :: nat where
  "DEBUG_POINTER_TO_RAW_DATA = 24"

subsection \<open>Memory accesses\<close>

text \<open>
  A read or write of \<open>n\<close> bytes at an offset of a mapping is defined when the
  range lies inside the mapping; nothing is accessed when \<open>n = 0\<close>.
\<close>

definition read_bytes :: "nat \<Rightarrow> nat \<Rightarrow> BYTE list \<Rightarrow> BYTE list option" where
  "read_bytes at n buf =
     (if n = 0 then Some []
      else if at + n \<le> length buf then Some (take n (drop at buf))
      else None)"

definition write_bytes :: "nat \<Rightarrow> BYTE list \<Rightarrow> BYTE list \<Rightarrow> BYTE list option" where
  "write_bytes at bs buf =
     (if bs = [] then Some buf
      else if at + length bs \<le> length buf
      then Some (take at buf @ bs @ drop (at + length bs) buf)
      else None)"

definition proc_bytes :: "process \<Rightarrow> DWORD \<Rightarrow> nat \<Rightarrow> BYTE list" where
  "proc_bytes proc addr n = map (\<lambda>k. memory proc (addr + of_nat k)) [0..<n]"

definition rd32 :: "BYTE list \<Rightarrow> DWORD" where
  "rd32 bs = (case bs of
      [b0, b1, b2, b3] \<Rightarrow>
        ucast b0 OR push_bit 8 (ucast b1) OR push_bit 16 (ucast b2) OR push_bit 24 (ucast b3)
    | _ \<Rightarrow> 0)"

subsection \<open>The copier's state and the chunk macros\<close>

text \<open>
  What \<open>COPY_CHUNK\<close> and \<open>COPY_PROC_CHUNK\<close> report for one chunk (and print when
  \<open>DEBUG_DUMP\<close> is set): the message, the offset in the input file or the address
  in the process, the offset in the output file, the size.
\<close>

datatype message =
    CopyingDOSHeader
  | CopyingNTHeader
  | CopyingSectionTable
  | CopyingRawData nat
  | DumpingInitializedData
  | DumpingBssData
  | DumpingStaticBssData
  | CopyingRemainder

record chunk =
  message :: message
  source :: nat
  target :: nat
  count :: nat

text \<open>
  The state of the dump: the output mapping with \<open>dst_nt_header\<close> and \<open>dst_section\<close>
  (the header records of \<open>out\<close>), the write cursor \<open>dst\<close> as an offset from
  \<open>p_outfile->file_base\<close>, and the chunks copied so far.
\<close>

record copier =
  out :: image
  dst :: nat
  chunks :: "chunk list"

definition put :: "message \<Rightarrow> nat \<Rightarrow> BYTE list \<Rightarrow> copier \<Rightarrow> fatal + copier" where
  "put msg src bs st =
     (case write_bytes (dst st) bs (bytes (out st)) of
        None \<Rightarrow> Inl Undefined
      | Some b \<Rightarrow>
          Inr (st\<lparr> out := (out st)\<lparr> bytes := b \<rparr>,
                   dst := dst st + length bs,
                   chunks := chunks st @
                     [\<lparr> message = msg, source = src, target = dst st, count = length bs \<rparr>] \<rparr>))"

definition COPY_CHUNK :: "message \<Rightarrow> file_data \<Rightarrow> nat \<Rightarrow> nat \<Rightarrow> copier \<Rightarrow> fatal + copier" where
  "COPY_CHUNK msg p_infile src n st =
     (case read_bytes src n (bytes (mapping p_infile)) of
        None \<Rightarrow> Inl Undefined
      | Some bs \<Rightarrow> put msg src bs st)"

definition COPY_PROC_CHUNK :: "message \<Rightarrow> process \<Rightarrow> DWORD \<Rightarrow> nat \<Rightarrow> copier \<Rightarrow> fatal + copier" where
  "COPY_PROC_CHUNK msg proc addr n st = put msg (unat addr) (proc_bytes proc addr n) st"

definition dst_align :: "copier \<Rightarrow> nat" where
  "dst_align st = unat (FileAlignment (nt (out st)))"

definition ROUND_UP_DST :: "copier \<Rightarrow> copier" where
  "ROUND_UP_DST st = st\<lparr> dst := ROUND_UP (dst st) (dst_align st) \<rparr>"

definition ROUND_UP_DST_AND_ZERO :: "copier \<Rightarrow> fatal + copier" where
  "ROUND_UP_DST_AND_ZERO st =
     (let newdst = ROUND_UP (dst st) (dst_align st) in
      if newdst < dst st then Inl Undefined
      else case write_bytes (dst st) (replicate (newdst - dst st) 0) (bytes (out st)) of
             None \<Rightarrow> Inl Undefined
           | Some b \<Rightarrow> Inr (st\<lparr> out := (out st)\<lparr> bytes := b \<rparr>, dst := newdst \<rparr>))"

definition dst_section :: "copier \<Rightarrow> nat \<Rightarrow> section_header" where
  "dst_section st i = sections (out st) ! i"

definition set_dst_section :: "nat \<Rightarrow> section_header \<Rightarrow> copier \<Rightarrow> copier" where
  "set_dst_section i d st = st\<lparr> out := (out st)\<lparr> sections := (sections (out st))[i := d] \<rparr> \<rparr>"

subsection \<open>Headers\<close>

definition copy_headers :: "file_data \<Rightarrow> copier \<Rightarrow> fatal + copier" where
  "copy_headers p_infile st =
     (let img = mapping p_infile;
          nt_at = unat (e_lfanew img);
          nt_size = OPTIONAL_HEADER_OFFSET + unat (SizeOfOptionalHeader (nt img))
      in
      seq (COPY_CHUNK CopyingDOSHeader p_infile 0 nt_at st) (\<lambda>st.
      seq (COPY_CHUNK CopyingNTHeader p_infile nt_at nt_size
             (st\<lparr> out := (out st)\<lparr> e_magic := e_magic img, e_lfanew := e_lfanew img \<rparr> \<rparr>)) (\<lambda>st.
      seq (COPY_CHUNK CopyingSectionTable p_infile (nt_at + nt_size)
             (length (sections img) * IMAGE_SIZEOF_SECTION_HEADER)
             (st\<lparr> out := (out st)\<lparr> nt := nt img \<rparr> \<rparr>)) (\<lambda>st.
      seq (ROUND_UP_DST_AND_ZERO (st\<lparr> out := (out st)\<lparr> sections := sections img \<rparr> \<rparr>)) (\<lambda>st.
        Inr (st\<lparr> out := (out st)\<lparr> nt := (nt (out st))\<lparr> SizeOfHeaders := of_nat (dst st) \<rparr> \<rparr> \<rparr>))))))"

subsection \<open>One section\<close>

text \<open>The block under \<open>if (section == data_section)\<close>.\<close>

definition dump_data :: "process \<Rightarrow> section_info \<Rightarrow> nat \<Rightarrow> nat \<Rightarrow> copier \<Rightarrow> fatal + copier" where
  "dump_data proc info i dst_save st =
     seq (COPY_PROC_CHUNK DumpingInitializedData proc (data_start info) (unat (data_size info))
            (st\<lparr> dst := dst_save +
                 unat (RVA_TO_SECTION_OFFSET (PTR_TO_RVA proc (data_start info))
                         (dst_section st i)) \<rparr>)) (\<lambda>st.
       Inr (st\<lparr> dst := dst_save + unat (SizeOfRawData (dst_section st i)) \<rparr>))"

text \<open>
  The block under \<open>if (section == bss_section)\<close>, and with the static range under
  \<open>if (section == bss_section_static)\<close>: the two differ in the message and in the
  range only.
\<close>

definition dump_bss ::
  "message \<Rightarrow> process \<Rightarrow> DWORD \<Rightarrow> DWORD \<Rightarrow> nat \<Rightarrow> nat \<Rightarrow> copier \<Rightarrow> fatal + copier" where
  "dump_bss msg proc start sz i dst_save st =
     seq (COPY_PROC_CHUNK msg proc start (unat sz)
            (st\<lparr> dst := dst_save +
                 unat (RVA_TO_SECTION_OFFSET (PTR_TO_RVA proc start) (dst_section st i)) \<rparr>)) (\<lambda>st.
       let st = ROUND_UP_DST st;
           st = set_dst_section i
                  ((dst_section st i)\<lparr> PointerToRawData := of_nat dst_save \<rparr>) st;
           st = st\<lparr> dst := max (dst st)
                               (dst_save + unat (SizeOfRawData (dst_section st i))) \<rparr>;
           st = set_dst_section i
                  ((dst_section st i)\<lparr> SizeOfRawData := of_nat (dst st - dst_save) \<rparr>) st;
           st = set_dst_section i
                  ((dst_section st i)\<lparr> Characteristics :=
                     Characteristics (dst_section st i)
                       AND NOT IMAGE_SCN_CNT_UNINITIALIZED_DATA \<rparr>) st;
           st = set_dst_section i
                  ((dst_section st i)\<lparr> Characteristics :=
                     Characteristics (dst_section st i)
                       OR IMAGE_SCN_CNT_INITIALIZED_DATA \<rparr>) st
       in Inr st)"

text \<open>The body of the loop over the sections, for section \<open>i\<close>.\<close>

definition copy_section ::
  "process \<Rightarrow> section_info \<Rightarrow> file_data \<Rightarrow> nat \<Rightarrow> copier \<Rightarrow> fatal + copier" where
  "copy_section proc info p_infile i st =
     (let sec = sections (mapping p_infile) ! i;
          dst_save = dst st;
          st = (if PointerToRawData (dst_section st i) \<noteq> 0
                then set_dst_section i
                       ((dst_section st i)\<lparr> PointerToRawData := of_nat (dst st) \<rparr>) st
                else st)
      in
      seq (COPY_CHUNK (CopyingRawData i) p_infile
             (unat (PointerToRawData sec)) (unat (SizeOfRawData sec)) st) (\<lambda>st.
      seq (ROUND_UP_DST_AND_ZERO st) (\<lambda>st.
      seq (if Some i = data_section info then dump_data proc info i dst_save st
           else Inr st) (\<lambda>st.
      seq (if Some i = bss_section info
           then dump_bss DumpingBssData proc (bss_start info) (bss_size info) i dst_save st
           else Inr st) (\<lambda>st.
      seq (if Some i = bss_section_static info
           then dump_bss DumpingStaticBssData proc
                  (bss_start_static info) (bss_size_static info) i dst_save st
           else Inr st) (\<lambda>st.
        Inr (ROUND_UP_DST st)))))))"

fun copy_sections ::
  "process \<Rightarrow> section_info \<Rightarrow> file_data \<Rightarrow> nat list \<Rightarrow> copier \<Rightarrow> fatal + copier" where
  "copy_sections proc info p_infile [] st = Inr st"
| "copy_sections proc info p_infile (i # is) st =
     seq (copy_section proc info p_infile i st) (copy_sections proc info p_infile is)"

subsection \<open>The remainder of the source image\<close>

definition copy_remainder :: "file_data \<Rightarrow> copier \<Rightarrow> fatal + copier" where
  "copy_remainder p_infile st =
     (let img = mapping p_infile in
      seq (back_to_raw (rev (sections img))) (\<lambda>sec.
        let offset = ROUND_UP_W (PointerToRawData sec + SizeOfRawData sec)
                                (FileAlignment (nt img))
        in COPY_CHUNK CopyingRemainder p_infile (unat offset)
             (unat (size_bytes p_infile - offset)) st))"

subsection \<open>Patching the file-relative offsets\<close>

definition ADJUST_OFFSET ::
  "DWORD \<Rightarrow> section_header list \<Rightarrow> section_header list \<Rightarrow> fatal + DWORD" where
  "ADJUST_OFFSET var src_secs dst_secs =
     (if var \<noteq> 0 then relocate_offset var src_secs dst_secs else Inr var)"

text \<open>
  The loop that recomputes the two data sizes of the optional header and adjusts
  each section's \<open>PointerToLinenumbers\<close>.
\<close>

definition add_data_size :: "section_header \<Rightarrow> nt_headers \<Rightarrow> nt_headers" where
  "add_data_size d h =
     (if Characteristics d AND IMAGE_SCN_CNT_INITIALIZED_DATA \<noteq> 0
      then h\<lparr> SizeOfInitializedData :=
                SizeOfInitializedData h + ROUND_UP_W (VirtualSize d) (FileAlignment h) \<rparr>
      else if Characteristics d AND IMAGE_SCN_CNT_UNINITIALIZED_DATA \<noteq> 0
      then h\<lparr> SizeOfUninitializedData :=
                SizeOfUninitializedData h + ROUND_UP_W (VirtualSize d) (FileAlignment h) \<rparr>
      else h)"

fun patch_sections :: "file_data \<Rightarrow> nat list \<Rightarrow> copier \<Rightarrow> fatal + copier" where
  "patch_sections p_infile [] st = Inr st"
| "patch_sections p_infile (i # is) st =
     (let st = st\<lparr> out := (out st)\<lparr> nt := add_data_size (dst_section st i) (nt (out st)) \<rparr> \<rparr>
      in
      seq (ADJUST_OFFSET (PointerToLinenumbers (dst_section st i))
             (sections (mapping p_infile)) (sections (out st))) (\<lambda>v.
        patch_sections p_infile is
          (set_dst_section i ((dst_section st i)\<lparr> PointerToLinenumbers := v \<rparr>) st)))"

text \<open>
  The loop over the entries of the debug directory, which lie in the raw data of
  the output: \<open>n\<close> entries are left, the next one at offset \<open>at\<close>.
\<close>

fun adjust_debug_entries :: "file_data \<Rightarrow> nat \<Rightarrow> nat \<Rightarrow> copier \<Rightarrow> fatal + copier" where
  "adjust_debug_entries p_infile 0 at st = Inr st"
| "adjust_debug_entries p_infile (Suc n) at st =
     (case read_bytes (at + DEBUG_POINTER_TO_RAW_DATA) 4 (bytes (out st)) of
        None \<Rightarrow> Inl Undefined
      | Some bs \<Rightarrow>
          if rd32 bs = 0
          then adjust_debug_entries p_infile n (at + IMAGE_SIZEOF_DEBUG_DIRECTORY) st
          else
            seq (relocate_offset (rd32 bs) (sections (mapping p_infile)) (sections (out st))) (\<lambda>v.
              case write_bytes (at + DEBUG_POINTER_TO_RAW_DATA) (le32 v) (bytes (out st)) of
                None \<Rightarrow> Inl Undefined
              | Some b \<Rightarrow>
                  adjust_debug_entries p_infile n (at + IMAGE_SIZEOF_DEBUG_DIRECTORY)
                    (st\<lparr> out := (out st)\<lparr> bytes := b \<rparr> \<rparr>)))"

definition patch_offsets :: "file_data \<Rightarrow> copier \<Rightarrow> fatal + copier" where
  "patch_offsets p_infile st =
     (let st = st\<lparr> out := (out st)\<lparr> nt := (nt (out st))\<lparr> SizeOfInitializedData := 0 \<rparr> \<rparr> \<rparr>;
          st = st\<lparr> out := (out st)\<lparr> nt := (nt (out st))\<lparr> SizeOfUninitializedData := 0 \<rparr> \<rparr> \<rparr>
      in
      seq (patch_sections p_infile [0..<length (sections (out st))] st) (\<lambda>st.
      seq (ADJUST_OFFSET (PointerToSymbolTable (nt (out st)))
             (sections (mapping p_infile)) (sections (out st))) (\<lambda>v.
        let st = st\<lparr> out := (out st)\<lparr> nt := (nt (out st))\<lparr> PointerToSymbolTable := v \<rparr> \<rparr> \<rparr>;
            dva = DebugVirtualAddress (nt (out st))
        in
        case rva_to_section dva (sections (out st)) of
          None \<Rightarrow> Inr st
        | Some k \<Rightarrow>
            adjust_debug_entries p_infile
              (unat (DebugSize (nt (out st))) div IMAGE_SIZEOF_DEBUG_DIRECTORY)
              (unat (RVA_TO_OFFSET dva (dst_section st k))) st)))"

subsection \<open>The whole dump\<close>

text \<open>
  The steps up to the final size of the new image, and then the whole function:
  it returns the output file with its final size and patched headers, and the
  chunks copied.
\<close>

definition copy_image :: "process \<Rightarrow> section_info \<Rightarrow> file_data \<Rightarrow> file_data \<Rightarrow> fatal + copier" where
  "copy_image proc info p_infile p_outfile =
     seq (copy_headers p_infile \<lparr> out = mapping p_outfile, dst = 0, chunks = [] \<rparr>) (\<lambda>st.
     seq (copy_sections proc info p_infile
            [0..<length (sections (mapping p_infile))] st) (\<lambda>st.
       copy_remainder p_infile st))"

definition copy_executable_and_dump_data ::
  "process \<Rightarrow> section_info \<Rightarrow> file_data \<Rightarrow> file_data \<Rightarrow> fatal + (file_data \<times> chunk list)" where
  "copy_executable_and_dump_data proc info p_infile p_outfile =
     seq (copy_image proc info p_infile p_outfile) (\<lambda>st.
     seq (patch_offsets p_infile st) (\<lambda>st'.
       Inr (p_outfile\<lparr> size_bytes := of_nat (dst st), mapping := out st' \<rparr>, chunks st')))"

section \<open>\<open>unexec\<close> and the file system\<close>

text \<open>
  The file system: directory entries (several names may be hard links to one
  file) and the files, a file being its index in \<open>files\<close>.  Deleting a name
  leaves the file to its other names.
\<close>

record filesystem =
  entries :: "(string \<times> nat) list"
  files :: "image list"

definition lookup :: "filesystem \<Rightarrow> string \<Rightarrow> nat option" where
  "lookup fs path = map_of (entries fs) path"

text \<open>
  What the system answers to the calls of \<open>unexec\<close>: the module's file name, the
  lead bytes of the ANSI code page (for \<open>CharNextA\<close>), whether \<open>DeleteFileA\<close>,
  \<open>CreateFileA\<close> and \<open>CreateFileMapping\<close> succeed, the address \<open>MapViewOfFile\<close>
  returns (0 when it fails), the address the input file is mapped at, and
  \<open>CheckSumMappedFile\<close> of \<open>imagehlp.dll\<close> when it is there.  \<open>filename_to_ansi\<close>
  is a function of \<open>w32.c\<close>, which is not among the sources.
\<close>

record win32 =
  GetModuleFileNameA :: "string option"
  IsDBCSLeadByte :: "char \<Rightarrow> bool"
  filename_to_ansi :: "string \<Rightarrow> string"
  DeleteFileA_ok :: bool
  CreateFileA_ok :: bool
  CreateFileMapping_ok :: bool
  MapViewOfFile :: DWORD
  input_base :: DWORD
  CheckSumMappedFile :: "(image \<Rightarrow> DWORD \<Rightarrow> DWORD) option"

definition MAX_PATH :: nat where
  "MAX_PATH = 260"

subsection \<open>The output file name\<close>

text \<open>
  The loop that turns backslashes into slashes, stepping with \<open>CharNextA\<close>: one
  character of the code page is two bytes when the first is a lead byte and
  another byte follows.
\<close>

fun to_slashes :: "(char \<Rightarrow> bool) \<Rightarrow> string \<Rightarrow> string" where
  "to_slashes lead [] = []"
| "to_slashes lead [c] = [if c = CHR 0x5C then CHR ''/'' else c]"
| "to_slashes lead (c # d # cs) =
     (let c' = (if c = CHR 0x5C then CHR ''/'' else c) in
      if lead c' then c' # d # to_slashes lead cs
      else c' # to_slashes lead (d # cs))"

text \<open>
  \<open>strrchr (s, c)\<close> for a character \<open>c\<close> other than NUL: the string before the
  last \<open>c\<close> and the string from it on, or \<open>None\<close> for \<open>NULL\<close>.
\<close>

definition strrchr :: "string \<Rightarrow> char \<Rightarrow> (string \<times> string) option" where
  "strrchr s c =
     (let after = takeWhile (\<lambda>x. x \<noteq> c) (rev s) in
      if length after = length s then None
      else Some (take (length s - length after - 1) s,
                 drop (length s - length after - 1) s))"

text \<open>
  The names \<open>unexec\<close> computes: \<open>in_filename\<close> and \<open>out_filename\<close>.  Both buffers
  hold \<open>MAX_PATH\<close> bytes, the terminator included; \<open>strlen (out_filename) - 4\<close>
  points before the buffer when the name has fewer than 4 characters.
\<close>

definition unexec_file_names :: "win32 \<Rightarrow> string \<Rightarrow> fatal + (string \<times> string)" where
  "unexec_file_names os new_name =
     (case GetModuleFileNameA os of
        None \<Rightarrow> Inl Abort
      | Some module_name \<Rightarrow>
          if length module_name \<ge> MAX_PATH then Inl Undefined
          else
            let in_filename = to_slashes (IsDBCSLeadByte os) module_name;
                new_name_a = filename_to_ansi os new_name
            in
            case strrchr in_filename CHR ''/'' of
              None \<Rightarrow> Inl Abort
            | Some (dir, _) \<Rightarrow>
                (case strrchr new_name_a CHR ''/'' of
                   None \<Rightarrow> Inl Abort
                 | Some (_, base) \<Rightarrow>
                     let out_filename = dir @ base in
                     if length out_filename \<ge> MAX_PATH then Inl Undefined
                     else if length out_filename < 4 then Inl Undefined
                     else if drop (length out_filename - 4) out_filename \<noteq> ''.exe''
                     then
                       if length out_filename + 4 \<ge> MAX_PATH then Inl Undefined
                       else Inr (in_filename, out_filename @ ''.exe'')
                     else Inr (in_filename, out_filename)))"

subsection \<open>Opening and closing the files\<close>

text \<open>
  Modelled from the spec: \<open>open_input_file\<close> (not among the sources) opens the
  executable read-only and maps it into memory; the file's bytes are the mapping
  and its length the size.
\<close>

definition open_input_file :: "win32 \<Rightarrow> filesystem \<Rightarrow> string \<Rightarrow> file_data option" where
  "open_input_file os fs filename =
     (case lookup fs filename of
        None \<Rightarrow> None
      | Some f \<Rightarrow>
          if f < length (files fs)
          then Some \<lparr> name = filename, size_bytes = of_nat (length (bytes (files fs ! f))),
                      file_base = input_base os, mapping = files fs ! f \<rparr>
          else None)"

text \<open>A file of \<open>n\<close> zero bytes, as \<open>CreateFileMapping\<close> sizes a new file.\<close>

definition blank_image :: "nat \<Rightarrow> image" where
  "blank_image n =
     \<lparr> bytes = replicate n 0, e_magic = 0, e_lfanew = 0,
       nt = \<lparr> Signature = 0, PointerToSymbolTable = 0, SizeOfOptionalHeader = 0,
              SizeOfInitializedData = 0, SizeOfUninitializedData = 0, ImageBase = 0,
              FileAlignment = 0, SizeOfHeaders = 0, CheckSum = 0,
              DebugVirtualAddress = 0, DebugSize = 0 \<rparr>,
       sections = [] \<rparr>"

text \<open>
  \<open>DeleteFileA\<close> removes the name when it succeeds.  \<open>CreateFileA\<close> with
  \<open>CREATE_ALWAYS\<close> truncates the file the name still refers to, or makes a new
  file for a name that refers to none.
\<close>

definition DeleteFileA :: "win32 \<Rightarrow> filesystem \<Rightarrow> string \<Rightarrow> filesystem" where
  "DeleteFileA os fs filename =
     (if DeleteFileA_ok os
      then fs\<lparr> entries := filter (\<lambda>e. fst e \<noteq> filename) (entries fs) \<rparr>
      else fs)"

definition CreateFileA_CREATE_ALWAYS :: "filesystem \<Rightarrow> string \<Rightarrow> nat \<times> filesystem" where
  "CreateFileA_CREATE_ALWAYS fs filename =
     (case lookup fs filename of
        Some f \<Rightarrow> (f, fs\<lparr> files := (files fs)[f := blank_image 0] \<rparr>)
      | None \<Rightarrow>
          (length (files fs),
           fs\<lparr> entries := (filename, length (files fs)) # entries fs,
                files := files fs @ [blank_image 0] \<rparr>))"

text \<open>
  \<open>open_output_file\<close>: the result is \<open>None\<close> for \<open>FALSE\<close>, else the \<open>file_data\<close>
  it fills in (with the file the handle refers to).
\<close>

definition open_output_file ::
  "win32 \<Rightarrow> filesystem \<Rightarrow> string \<Rightarrow> DWORD \<Rightarrow> (file_data \<times> nat) option \<times> filesystem" where
  "open_output_file os fs filename sz =
     (let fs = DeleteFileA os fs filename in
      if \<not> CreateFileA_ok os then (None, fs)
      else
        let (f, fs) = CreateFileA_CREATE_ALWAYS fs filename in
        if \<not> CreateFileMapping_ok os then (None, fs)
        else
          let fs = fs\<lparr> files := (files fs)[f := blank_image (unat sz)] \<rparr> in
          if MapViewOfFile os = 0 then (None, fs)
          else
            (Some (\<lparr> name = filename, size_bytes = sz, file_base = MapViewOfFile os,
                     mapping = blank_image (unat sz) \<rparr>, f), fs))"

text \<open>
  Modelled from the spec: \<open>close_file_data\<close> (not among the sources) unmaps the
  file and releases its handles; what was written through the mapping is the
  file's content.
\<close>

definition close_file_data :: "filesystem \<Rightarrow> nat \<Rightarrow> file_data \<Rightarrow> filesystem" where
  "close_file_data fs f p_file = fs\<lparr> files := (files fs)[f := mapping p_file] \<rparr>"

text \<open>Every directory entry refers to a file of the file system.\<close>

definition entries_ok :: "filesystem \<Rightarrow> bool" where
  "entries_ok fs = list_all (\<lambda>e. snd e < length (files fs)) (entries fs)"

subsection \<open>\<open>unexec\<close>\<close>

text \<open>The block that patches the checksum of the new image.\<close>

definition patch_checksum :: "win32 \<Rightarrow> file_data \<Rightarrow> file_data" where
  "patch_checksum os out_file =
     (let img = mapping out_file;
          img = img\<lparr> nt := (nt img)\<lparr> CheckSum := 0 \<rparr> \<rparr>
      in case CheckSumMappedFile os of
           None \<Rightarrow> out_file\<lparr> mapping := img \<rparr>
         | Some pfn \<Rightarrow>
             out_file\<lparr> mapping :=
               img\<lparr> nt := (nt img)\<lparr> CheckSum := pfn img (size_bytes out_file) \<rparr> \<rparr> \<rparr>)"

text \<open>
  \<open>unexec (new_name, old_name)\<close>: the outcome (what ended the program, or the
  chunks copied) and the file system it leaves.  \<open>old_name\<close> is ignored.
\<close>

definition unexec ::
  "bool \<Rightarrow> win32 \<Rightarrow> process \<Rightarrow> filesystem \<Rightarrow> string \<Rightarrow> string \<Rightarrow>
     (fatal + chunk list) \<times> filesystem" where
  "unexec alpha os proc fs new_name old_name =
     (case unexec_file_names os new_name of
        Inl e \<Rightarrow> (Inl e, fs)
      | Inr (in_filename, out_filename) \<Rightarrow>
          (case open_input_file os fs in_filename of
             None \<Rightarrow> (Inl (Exit1 (FailedToOpen in_filename)), fs)
           | Some in_file \<Rightarrow>
               (case get_section_info alpha proc in_file of
                  Inl e \<Rightarrow> (Inl e, fs)
                | Inr info \<Rightarrow>
                    (case open_output_file os fs out_filename
                            (size_bytes in_file + extra_bss_size info
                             + extra_bss_size_static info) of
                       (None, fs') \<Rightarrow> (Inl (Exit1 (FailedToOpen out_filename)), fs')
                     | (Some (out_file, f), fs') \<Rightarrow>
                         (case copy_executable_and_dump_data proc info in_file out_file of
                            Inl e \<Rightarrow> (Inl e, fs')
                          | Inr (out_file', log) \<Rightarrow>
                              (Inr log,
                               close_file_data fs' f (patch_checksum os out_file')))))))"

subsection \<open>Raw-data layout of a section table\<close>

text \<open>
  The end of a section's raw data in the file, the offsets its raw data covers,
  and the layout the section tables of an image have: every raw-data range lies
  within a file of less than \<open>2^32\<close> bytes, and the raw data of a section that
  has some starts at or after the end of the raw data of every earlier entry.
\<close>

definition raw_end :: "section_header \<Rightarrow> nat" where
  "raw_end s = unat (PointerToRawData s) + unat (SizeOfRawData s)"

definition covers :: "section_header \<Rightarrow> DWORD \<Rightarrow> bool" where
  "covers s offset = (unat (PointerToRawData s) \<le> unat offset \<and> unat offset < raw_end s)"

definition raw_layout_ok :: "section_header list \<Rightarrow> bool" where
  "raw_layout_ok secs =
     (list_all (\<lambda>s. raw_end s < 2 ^ 32) secs \<and>
      sorted_wrt (\<lambda>a b. SizeOfRawData b \<noteq> 0 \<longrightarrow> raw_end a \<le> unat (PointerToRawData b)) secs)"

text \<open>The last entry of a table that has a raw-data offset.\<close>

definition last_raw :: "section_header list \<Rightarrow> section_header" where
  "last_raw secs = last (filter (\<lambda>s. PointerToRawData s \<noteq> 0) secs)"

text \<open>No entry's raw-data offset or size differs between the two tables.\<close>

definition same_raw :: "section_header list \<Rightarrow> section_header list \<Rightarrow> bool" where
  "same_raw src dest =
     (map PointerToRawData dest = map PointerToRawData src \<and>
      map SizeOfRawData dest = map SizeOfRawData src)"

subsection \<open>The layout the copier computes\<close>

text \<open>
  The rest of this section describes, as functions of the source table, what the
  loop over the sections does to the write cursor and to the destination table.
  They are used to state the properties below; the code is \<open>copy_section\<close> and
  \<open>copy_sections\<close>.
\<close>

text \<open>A buffer with \<open>bs\<close> written at offset \<open>at\<close>.\<close>

definition overwrite :: "nat \<Rightarrow> 'a list \<Rightarrow> 'a list \<Rightarrow> 'a list" where
  "overwrite at bs buf = take at buf @ bs @ drop (at + length bs) buf"

text \<open>
  Where the dumped bss range, and the static one, end in the output when the raw
  data of their section \<open>s\<close> starts at \<open>c\<close>, and where the initialized data ends
  within its section.
\<close>

definition bss_end :: "process \<Rightarrow> section_info \<Rightarrow> nat \<Rightarrow> section_header \<Rightarrow> nat" where
  "bss_end proc info c s =
     c + unat (RVA_TO_SECTION_OFFSET (PTR_TO_RVA proc (bss_start info)) s) + unat (bss_size info)"

definition bss_end_static :: "process \<Rightarrow> section_info \<Rightarrow> nat \<Rightarrow> section_header \<Rightarrow> nat" where
  "bss_end_static proc info c s =
     c + unat (RVA_TO_SECTION_OFFSET (PTR_TO_RVA proc (bss_start_static info)) s)
       + unat (bss_size_static info)"

definition data_end :: "process \<Rightarrow> section_info \<Rightarrow> section_header \<Rightarrow> nat" where
  "data_end proc info s =
     unat (RVA_TO_SECTION_OFFSET (PTR_TO_RVA proc (data_start info)) s) + unat (data_size info)"

text \<open>
  For section \<open>j\<close> with entry \<open>s\<close>, copied from cursor \<open>c\<close> under alignment \<open>a\<close>: the
  end of its raw data in the output (the end of the raw data it had, or the end of
  a bss range dumped into it rounded up to the alignment, whichever is largest),
  the cursor for the next section, and its entry in the destination table.
\<close>

definition grown_end :: "nat \<Rightarrow> process \<Rightarrow> section_info \<Rightarrow> nat \<Rightarrow> nat \<Rightarrow> section_header \<Rightarrow> nat" where
  "grown_end a proc info j c s =
     (let e = (if Some j = bss_section info
               then max (ROUND_UP (bss_end proc info c s) a) (c + unat (SizeOfRawData s))
               else c + unat (SizeOfRawData s))
      in if Some j = bss_section_static info
         then max (ROUND_UP (bss_end_static proc info c s) a) e
         else e)"

definition next_dst :: "nat \<Rightarrow> process \<Rightarrow> section_info \<Rightarrow> nat \<Rightarrow> nat \<Rightarrow> section_header \<Rightarrow> nat" where
  "next_dst a proc info j c s = ROUND_UP (grown_end a proc info j c s) a"

definition new_entry ::
  "nat \<Rightarrow> process \<Rightarrow> section_info \<Rightarrow> nat \<Rightarrow> nat \<Rightarrow> section_header \<Rightarrow> section_header" where
  "new_entry a proc info j c s =
     (if Some j = bss_section info \<or> Some j = bss_section_static info
      then s\<lparr> PointerToRawData := of_nat c,
              SizeOfRawData := of_nat (grown_end a proc info j c s - c),
              Characteristics :=
                (Characteristics s AND NOT IMAGE_SCN_CNT_UNINITIALIZED_DATA)
                  OR IMAGE_SCN_CNT_INITIALIZED_DATA \<rparr>
      else if PointerToRawData s \<noteq> 0 then s\<lparr> PointerToRawData := of_nat c \<rparr>
      else s)"

text \<open>The same for the sections from \<open>j\<close> on: the final cursor and the entries.\<close>

fun layout_end ::
  "nat \<Rightarrow> process \<Rightarrow> section_info \<Rightarrow> nat \<Rightarrow> nat \<Rightarrow> section_header list \<Rightarrow> nat" where
  "layout_end a proc info j c [] = c"
| "layout_end a proc info j c (s # ss) =
     layout_end a proc info (Suc j) (next_dst a proc info j c s) ss"

fun layout ::
  "nat \<Rightarrow> process \<Rightarrow> section_info \<Rightarrow> nat \<Rightarrow> nat \<Rightarrow> section_header list \<Rightarrow> section_header list" where
  "layout a proc info j c [] = []"
| "layout a proc info j c (s # ss) =
     new_entry a proc info j c s # layout a proc info (Suc j) (next_dst a proc info j c s) ss"

text \<open>What a step leaves of the state apart from the bytes and the chunks.\<close>

definition view :: "copier \<Rightarrow> nat \<times> section_header list \<times> nt_headers \<times> nat" where
  "view st = (dst st, sections (out st), nt (out st), length (bytes (out st)))"

text \<open>
  The end of the section table in the file, and the part of the source that is
  copied as the remainder: where it starts and how long it is.
\<close>

definition header_end :: "image \<Rightarrow> nat" where
  "header_end img =
     unat (e_lfanew img) + OPTIONAL_HEADER_OFFSET + unat (SizeOfOptionalHeader (nt img))
     + length (sections img) * IMAGE_SIZEOF_SECTION_HEADER"

definition remainder_from :: "file_data \<Rightarrow> DWORD" where
  "remainder_from f =
     ROUND_UP_W (PointerToRawData (last_raw (sections (mapping f)))
                 + SizeOfRawData (last_raw (sections (mapping f))))
                (FileAlignment (nt (mapping f)))"

definition remainder_size :: "file_data \<Rightarrow> nat" where
  "remainder_size f = unat (size_bytes f - remainder_from f)"



subsection \<open>Regions and sections\<close>

text \<open>
  Both boundary addresses of a region lie in one section of the table (and with
  them every address between).
\<close>

definition in_one_section :: "section_header list \<Rightarrow> DWORD \<Rightarrow> DWORD \<Rightarrow> bool" where
  "in_one_section secs b e = list_ex (\<lambda>s. rva_in_section b s \<and> rva_in_section e s) secs"

text \<open>
  A tracked region does not lie in one section: the initialized data when it is
  delimited by \<open>my_begdata\<close> and \<open>my_edata\<close> (there is no \<open>EMDATA\<close> section), or one
  of the two bss ranges.  And: the first address of every region belongs to the
  image, that is to some section of it.
\<close>

definition spans_sections :: "process \<Rightarrow> section_header list \<Rightarrow> bool" where
  "spans_sections proc secs =
     ((find_section ''EMDATA'' secs = Inr None \<and>
       \<not> in_one_section secs (PTR_TO_RVA proc (my_begdata proc)) (PTR_TO_RVA proc (my_edata proc)))
      \<or> \<not> in_one_section secs (PTR_TO_RVA proc (my_begbss proc)) (PTR_TO_RVA proc (my_endbss proc))
      \<or> \<not> in_one_section secs (PTR_TO_RVA proc (my_begbss_static proc))
             (PTR_TO_RVA proc (my_endbss_static proc)))"

definition symbols_mapped :: "process \<Rightarrow> section_header list \<Rightarrow> bool" where
  "symbols_mapped proc secs =
     (rva_to_section (PTR_TO_RVA proc (my_begdata proc)) secs \<noteq> None \<and>
      rva_to_section (PTR_TO_RVA proc (my_begbss proc)) secs \<noteq> None \<and>
      rva_to_section (PTR_TO_RVA proc (my_begbss_static proc)) secs \<noteq> None)"

subsection \<open>The name of the new executable\<close>

text \<open>
  A file name with the executable suffix: \<open>.exe\<close> is appended when the name does
  not already end in it.
\<close>

definition exe_suffixed :: "string \<Rightarrow> string" where
  "exe_suffixed path =
     (if drop (length path - 4) path = ''.exe'' then path else path @ ''.exe'')"

subsection \<open>What a step of the copier keeps\<close>

text \<open>
  The chunks that dump a bss range.  And, between two states of the copier: the
  cursor is at or beyond \<open>n\<close>, and the output has kept its length, its first \<open>n\<close>
  bytes and its file alignment.
\<close>

definition is_bss_dump :: "chunk \<Rightarrow> bool" where
  "is_bss_dump c = (message c = DumpingBssData \<or> message c = DumpingStaticBssData)"

definition kept :: "nat \<Rightarrow> copier \<Rightarrow> copier \<Rightarrow> bool" where
  "kept n st st' =
     (n \<le> dst st' \<and> length (bytes (out st')) = length (bytes (out st)) \<and>
      take n (bytes (out st')) = take n (bytes (out st)) \<and>
      FileAlignment (nt (out st')) = FileAlignment (nt (out st)))"

text \<open>
  A section header without the fields the dump may change for a section that
  holds a bss range, and without those it may change for any section; two tables
  of the same length that agree on them; and the sections that hold a bss range.
\<close>

definition core :: "section_header \<Rightarrow> section_header" where
  "core s = s\<lparr> PointerToRawData := 0, SizeOfRawData := 0, PointerToLinenumbers := 0,
               Characteristics := 0 \<rparr>"

definition placed :: "section_header \<Rightarrow> section_header" where
  "placed s = s\<lparr> PointerToRawData := 0, PointerToLinenumbers := 0 \<rparr>"

definition same_but :: "(nat \<Rightarrow> bool) \<Rightarrow> section_header list \<Rightarrow> section_header list \<Rightarrow> bool" where
  "same_but own xs xs' =
     (length xs' = length xs \<and>
      (\<forall>j<length xs. core (xs' ! j) = core (xs ! j) \<and>
                      (\<not> own j \<longrightarrow> placed (xs' ! j) = placed (xs ! j))))"

definition bss_owner :: "section_info \<Rightarrow> nat \<Rightarrow> bool" where
  "bss_owner info j = (Some j = bss_section info \<or> Some j = bss_section_static info)"

text \<open>
  The bytes of the \<open>PointerToRawData\<close> fields of \<open>n\<close> debug directory entries
  from offset \<open>at\<close> on, and of the debug directory of an image.
\<close>

fun debug_field :: "nat \<Rightarrow> nat \<Rightarrow> nat \<Rightarrow> bool" where
  "debug_field at 0 x = False"
| "debug_field at (Suc n) x =
     ((at + DEBUG_POINTER_TO_RAW_DATA \<le> x \<and> x < at + DEBUG_POINTER_TO_RAW_DATA + 4) \<or>
      debug_field (at + IMAGE_SIZEOF_DEBUG_DIRECTORY) n x)"

definition debug_fields :: "image \<Rightarrow> nat \<Rightarrow> bool" where
  "debug_fields img x =
     (case rva_to_section (DebugVirtualAddress (nt img)) (sections img) of
        None \<Rightarrow> False
      | Some k \<Rightarrow>
          debug_field (unat (RVA_TO_OFFSET (DebugVirtualAddress (nt img)) (sections img ! k)))
            (unat (DebugSize (nt img)) div IMAGE_SIZEOF_DEBUG_DIRECTORY) x)"

section \<open>Example images\<close>

definition mk_section :: "string \<Rightarrow> DWORD \<Rightarrow> DWORD \<Rightarrow> DWORD \<Rightarrow> DWORD \<Rightarrow> DWORD \<Rightarrow> section_header" where
  "mk_section nm va vsize ptr rsize chr =
     \<lparr> Name = bytes_of nm, VirtualSize = vsize, VirtualAddress = va,
       SizeOfRawData = rsize, PointerToRawData = ptr, PointerToRelocations = 0,
       PointerToLinenumbers = 0, NumberOfRelocations = 0, NumberOfLinenumbers = 0,
       Characteristics = chr \<rparr>"

text \<open>
  A table in file order: code at 64, initialized data at 320, an uninitialized
  section with no raw data at 384, resources at 384; and the same table after the
  uninitialized section has grown by 128 bytes.
\<close>

definition ex_src :: "section_header list" where
  "ex_src =
     [mk_section ''.text'' 0x1000 256 64 256 0x20,
      mk_section ''.data'' 0x2000 64 320 64 0x40,
      mk_section ''.bss'' 0x3000 128 384 0 0x80,
      mk_section ''.rsrc'' 0x4000 32 384 32 0x40]"

definition ex_dst :: "section_header list" where
  "ex_dst =
     [mk_section ''.text'' 0x1000 256 64 256 0x20,
      mk_section ''.data'' 0x2000 64 320 64 0x40,
      mk_section ''.bss'' 0x3000 128 384 128 0x40,
      mk_section ''.rsrc'' 0x4000 32 512 32 0x40]"

text \<open>A table with a section whose name fills all 8 bytes of the name field.\<close>

definition ex_textbss :: "section_header list" where
  "ex_textbss =
     [mk_section ''.textbss'' 0x1000 0x1234 0 0 0x80,
      mk_section ''.text'' 0x3000 256 1024 512 0x20]"

text \<open>
  A copier at the start of a section with no raw data, in an output of 64 bytes
  aligned to 16, and a process whose bss ranges lie in that section.
\<close>

definition ex_bss_copier :: copier where
  "ex_bss_copier =
     \<lparr> out = (blank_image 64)\<lparr>
         nt := (nt (blank_image 64))\<lparr> FileAlignment := 16 \<rparr>,
         sections := [mk_section ''.bss'' 0x2000 40 0 0 0x80] \<rparr>,
       dst = 16, chunks = [] \<rparr>"

definition ex_bss_proc :: process where
  "ex_bss_proc = \<lparr> module_base = 0x400000, my_begdata = 0x401000, my_edata = 0x401008,
      my_begbss = 0x402004, my_endbss = 0x402018,
      my_begbss_static = 0x402008, my_endbss_static = 0x402010,
      memory = (\<lambda>a. ucast a + 0x80) \<rparr>"

text \<open>
  A small executable: headers of 152 bytes (\<open>e_lfanew\<close> 8, no optional header,
  three sections), file alignment 16, initialized data at 160, an uninitialized
  section with no raw data (offset 0 and size 0), resources at 176, and 8 more
  bytes after the raw data.  Byte \<open>i\<close> of the file is \<open>i\<close>.
\<close>

definition ex_nt :: nt_headers where
  "ex_nt = \<lparr> Signature = IMAGE_NT_SIGNATURE, PointerToSymbolTable = 196,
       SizeOfOptionalHeader = 0, SizeOfInitializedData = 32, SizeOfUninitializedData = 48,
       ImageBase = 0x400000, FileAlignment = 16, SizeOfHeaders = 160, CheckSum = 0x1234,
       DebugVirtualAddress = 0, DebugSize = 0 \<rparr>"

definition ex_sections :: "section_header list" where
  "ex_sections =
     [mk_section ''.data'' 0x1000 16 160 16 0x40,
      mk_section ''.bss'' 0x2000 40 0 0 0x80,
      mk_section ''.rsrc'' 0x3000 16 176 16 0x40]"

definition ex_image :: image where
  "ex_image = \<lparr> bytes = map of_nat [0..<200], e_magic = IMAGE_DOS_SIGNATURE, e_lfanew = 8,
      nt = ex_nt, sections = ex_sections \<rparr>"

definition ex_in :: file_data where
  "ex_in = \<lparr> name = ''C:/emacs/bin/temacs.exe'', size_bytes = 200,
      file_base = 0x10000000, mapping = ex_image \<rparr>"

text \<open>
  The process running it: initialized data of 8 bytes at the start of the first
  section, and two overlapping bss ranges in the second, together the 28 bytes
  from offset 4 of that section.
\<close>

definition ex_proc :: process where
  "ex_proc = \<lparr> module_base = 0x400000, my_begdata = 0x401000, my_edata = 0x401008,
      my_begbss = 0x402004, my_endbss = 0x402014,
      my_begbss_static = 0x402008, my_endbss_static = 0x402020,
      memory = (\<lambda>a. ucast a + 0x80) \<rparr>"

definition ex_info :: section_info where
  "ex_info = \<lparr> data_section = Some 0, data_start = 0x401000, data_size = 8,
      bss_section = Some 1, bss_start = 0x402004, bss_size = 28, extra_bss_size = 32,
      bss_section_static = None, bss_start_static = 0x402008, bss_size_static = 24,
      extra_bss_size_static = 0 \<rparr>"

definition ex_out :: file_data where
  "ex_out = \<lparr> name = ''C:/emacs/bin/emacs.exe'', size_bytes = 232,
      file_base = 0x20000000, mapping = blank_image 232 \<rparr>"

text \<open>
  The same executable with a gap of 16 bytes in the file before the raw data of
  the last section.
\<close>

definition ex_gap_in :: file_data where
  "ex_gap_in = \<lparr> name = ''C:/emacs/bin/temacs.exe'', size_bytes = 216,
      file_base = 0x10000000,
      mapping = ex_image\<lparr> bytes := map of_nat [0..<216],
        sections := [mk_section ''.data'' 0x1000 16 160 16 0x40,
                     mk_section ''.bss'' 0x2000 40 176 0 0x80,
                     mk_section ''.rsrc'' 0x3000 16 192 16 0x40] \<rparr> \<rparr>"

definition ex_gap_out :: file_data where
  "ex_gap_out = \<lparr> name = ''C:/emacs/bin/emacs.exe'', size_bytes = 248,
      file_base = 0x20000000, mapping = blank_image 248 \<rparr>"


text \<open>
  The system around the example: the module is \<open>C:\emacs\bin\temacs.exe\<close> in a
  single-byte code page, every call succeeds, and there is no \<open>imagehlp.dll\<close>.
  The file system holds the executable, and an earlier dump \<open>emacs.exe\<close> with a
  hard link \<open>emacs-27.1.exe\<close> to it.
\<close>

definition ex_os :: win32 where
  "ex_os = \<lparr> GetModuleFileNameA =
        Some (''C:'' @ [CHR 0x5C] @ ''emacs'' @ [CHR 0x5C] @ ''bin'' @ [CHR 0x5C] @ ''temacs.exe''),
      IsDBCSLeadByte = (\<lambda>c. False), filename_to_ansi = (\<lambda>s. s),
      DeleteFileA_ok = True, CreateFileA_ok = True, CreateFileMapping_ok = True,
      MapViewOfFile = 0x20000000, input_base = 0x10000000, CheckSumMappedFile = None \<rparr>"

definition ex_fs :: filesystem where
  "ex_fs = \<lparr> entries = [(''C:/emacs/bin/temacs.exe'', 0), (''C:/emacs/bin/emacs.exe'', 1),
                          (''C:/emacs/bin/emacs-27.1.exe'', 1)],
             files = [ex_image, blank_image 8] \<rparr>"

text \<open>The example process with the end of its bss range in the next section.\<close>

definition ex_span_proc :: process where
  "ex_span_proc = ex_proc\<lparr> my_endbss := 0x403004 \<rparr>"

text \<open>
  The same system when \<open>DeleteFileA\<close> fails (the caller may write the file but
  not delete it), and the example file system after \<open>open_output_file\<close> has
  deleted the old \<open>emacs.exe\<close> and created the new one.
\<close>

definition ex_os_no_delete :: win32 where
  "ex_os_no_delete = ex_os\<lparr> DeleteFileA_ok := False \<rparr>"

definition ex_fs_opened :: filesystem where
  "ex_fs_opened =
     \<lparr> entries = [(''C:/emacs/bin/emacs.exe'', 2), (''C:/emacs/bin/temacs.exe'', 0),
                  (''C:/emacs/bin/emacs-27.1.exe'', 1)],
       files = [ex_image, blank_image 8, blank_image 232] \<rparr>"

text \<open>
  The copier of the small executable when it reaches section 1, and a process
  whose two bss ranges lie apart in that section (offsets 4 to 12 and 16 to 32),
  with what \<open>get_section_info\<close> records for it: both ranges are dumped.
\<close>

definition ex_copier :: copier where
  "ex_copier = \<lparr> out = (blank_image 232)\<lparr> nt := ex_nt, sections := ex_sections \<rparr>,
                 dst = 176, chunks = [] \<rparr>"

definition ex_two_proc :: process where
  "ex_two_proc = ex_proc\<lparr> my_endbss := 0x40200C, my_begbss_static := 0x402010 \<rparr>"

definition ex_two_info :: section_info where
  "ex_two_info = \<lparr> data_section = Some 0, data_start = 0x401000, data_size = 8,
      bss_section = Some 1, bss_start = 0x402004, bss_size = 8, extra_bss_size = 16,
      bss_section_static = Some 1, bss_start_static = 0x402010, bss_size_static = 16,
      extra_bss_size_static = 32 \<rparr>"

section \<open>Properties\<close>

subsection \<open>\<open>relocate_offset\<close>\<close>

lemma back_to_raw_rev:
  "\<exists>s\<in>set secs. PointerToRawData s \<noteq> 0 \<Longrightarrow> back_to_raw (rev secs) = Inr (last_raw secs)"
proof (induction secs rule: rev_induct)
  case Nil
  then show ?case by simp
next
  case (snoc x xs)
  show ?case
  proof (cases "PointerToRawData x = 0")
    case True
    with snoc.prems have "\<exists>s\<in>set xs. PointerToRawData s \<noteq> 0" by auto
    with snoc.IH True show ?thesis by (simp add: last_raw_def)
  next
    case False
    then show ?thesis by (simp add: last_raw_def)
  qed
qed

lemma word_lt_raw_end:
  "raw_end s < 2 ^ 32 \<Longrightarrow>
     (offset < PointerToRawData s + SizeOfRawData s) = (unat offset < raw_end s)"
  unfolding raw_end_def
  by (simp add: word_less_nat_alt unat_word_ariths)

lemma past_not_lt:
  "raw_end s \<le> unat offset \<Longrightarrow> \<not> offset < PointerToRawData s + SizeOfRawData s"
  unfolding raw_end_def
  by (simp add: word_less_nat_alt unat_word_ariths)

lemma past_ge:
  "raw_end s \<le> unat offset \<Longrightarrow> PointerToRawData s \<le> offset"
  unfolding raw_end_def by (simp add: word_le_nat_alt)

lemma walk_trailing:
  "src \<noteq> [] \<Longrightarrow> \<forall>s\<in>set src. raw_end s \<le> unat offset \<Longrightarrow>
     relocate_walk offset src dest = Inr Trailing"
proof (induction src arbitrary: dest)
  case Nil
  then show ?case by simp
next
  case (Cons s ss)
  then show ?case
    by (cases "ss = []") (simp_all add: past_not_lt past_ge)
qed

lemma walk_owner:
  "raw_layout_ok src \<Longrightarrow> length dest = length src \<Longrightarrow> i < length src \<Longrightarrow>
   covers (src ! i) offset \<Longrightarrow>
     relocate_walk offset src dest =
       Inr (Owner (offset + (PointerToRawData (dest ! i) - PointerToRawData (src ! i))))"
proof (induction src arbitrary: dest i)
  case Nil
  then show ?case by simp
next
  case (Cons s ss)
  from Cons.prems(2) obtain d ds where dest: "dest = d # ds" and len: "length ds = length ss"
    by (cases dest) auto
  show ?case
  proof (cases i)
    case 0
    with Cons.prems(1,4) show ?thesis
      by (simp add: dest covers_def raw_layout_ok_def word_lt_raw_end word_le_nat_alt)
  next
    case (Suc j)
    with Cons.prems have j: "j < length ss" and cov: "covers (ss ! j) offset" by auto
    from cov have nz: "SizeOfRawData (ss ! j) \<noteq> 0"
      by (auto simp: covers_def raw_end_def)
    from Cons.prems(1) j nz have "raw_end s \<le> unat (PointerToRawData (ss ! j))"
      by (auto simp: raw_layout_ok_def)
    with cov have past: "raw_end s \<le> unat offset" by (simp add: covers_def)
    from Cons.prems(1) have ok: "raw_layout_ok ss" by (simp add: raw_layout_ok_def)
    from j have ne: "ss \<noteq> []" by auto
    from Cons.IH[OF ok len j cov] past ne show ?thesis
      by (simp add: dest Suc past_not_lt past_ge)
  qed
qed

text \<open>
  C2.  On tables of equal length whose source raw data is laid out in file order:
  an offset that the raw-data range of source section \<open>i\<close> covers is returned
  shifted by the raw-data start of destination section \<open>i\<close> minus that of source
  section \<open>i\<close>; an offset at or past the end of every raw-data range is returned
  shifted by the raw-data end of the destination's last section with a raw-data
  offset minus the raw-data end of the source's last such section.
\<close>

theorem relocate_offset_owner_or_trailing:
  assumes "raw_layout_ok src" and "length dest = length src"
  shows "(\<forall>i<length src. covers (src ! i) offset \<longrightarrow>
            relocate_offset offset src dest =
              Inr (offset + (PointerToRawData (dest ! i) - PointerToRawData (src ! i))))
       \<and> ((\<forall>s\<in>set src. raw_end s \<le> unat offset) \<and>
            (\<exists>s\<in>set src. PointerToRawData s \<noteq> 0) \<and>
            (\<exists>d\<in>set dest. PointerToRawData d \<noteq> 0) \<longrightarrow>
            relocate_offset offset src dest =
              Inr (offset + (PointerToRawData (last_raw dest) + SizeOfRawData (last_raw dest))
                   - (PointerToRawData (last_raw src) + SizeOfRawData (last_raw src))))"
proof (intro conjI allI impI)
  fix i assume "i < length src" "covers (src ! i) offset"
  with assms show "relocate_offset offset src dest =
      Inr (offset + (PointerToRawData (dest ! i) - PointerToRawData (src ! i)))"
    by (simp add: relocate_offset_def walk_owner)
next
  assume h: "(\<forall>s\<in>set src. raw_end s \<le> unat offset) \<and>
            (\<exists>s\<in>set src. PointerToRawData s \<noteq> 0) \<and>
            (\<exists>d\<in>set dest. PointerToRawData d \<noteq> 0)"
  then have "src \<noteq> []" by auto
  with h show "relocate_offset offset src dest =
              Inr (offset + (PointerToRawData (last_raw dest) + SizeOfRawData (last_raw dest))
                   - (PointerToRawData (last_raw src) + SizeOfRawData (last_raw src)))"
    by (simp add: relocate_offset_def walk_trailing back_to_raw_rev)
qed

theorem relocate_offset_owner_or_trailing_witness:
  "raw_layout_ok ex_src \<and> length ex_dst = length ex_src \<and>
   covers (ex_src ! 3) 390 \<and> relocate_offset 390 ex_src ex_dst = Inr 518 \<and>
   relocate_offset 450 ex_src ex_dst = Inr 578"
proof -
  have ok: "raw_layout_ok ex_src"
    by (simp add: ex_src_def mk_section_def raw_layout_ok_def raw_end_def)
  have len: "length ex_dst = length ex_src" and l3: "3 < length ex_src"
    by (simp_all add: ex_src_def ex_dst_def)
  have cov: "covers (ex_src ! 3) 390"
    by (simp add: ex_src_def mk_section_def covers_def raw_end_def)
  have past: "\<forall>s\<in>set ex_src. raw_end s \<le> unat (450 :: DWORD)"
    by (simp add: ex_src_def mk_section_def raw_end_def)
  have ex: "\<exists>s\<in>set ex_src. PointerToRawData s \<noteq> 0"
    "\<exists>d\<in>set ex_dst. PointerToRawData d \<noteq> 0"
    by (simp_all add: ex_src_def ex_dst_def mk_section_def)
  have v1: "390 + (PointerToRawData (ex_dst ! 3) - PointerToRawData (ex_src ! 3))
      = (518 :: DWORD)"
    by (simp add: ex_src_def ex_dst_def mk_section_def)
  have v2: "450 + (PointerToRawData (last_raw ex_dst) + SizeOfRawData (last_raw ex_dst))
      - (PointerToRawData (last_raw ex_src) + SizeOfRawData (last_raw ex_src)) = (578 :: DWORD)"
    by (simp add: ex_src_def ex_dst_def mk_section_def last_raw_def)
  from relocate_offset_owner_or_trailing[OF ok len, of 390] cov l3
  have a: "relocate_offset 390 ex_src ex_dst = Inr 518"
    unfolding v1[symmetric] by blast
  from relocate_offset_owner_or_trailing[OF ok len, of 450] past ex
  have b: "relocate_offset 450 ex_src ex_dst = Inr 578"
    unfolding v2[symmetric] by blast
  from ok len cov a b show ?thesis by simp
qed

lemma walk_same:
  "same_raw src dest \<Longrightarrow> src \<noteq> [] \<Longrightarrow>
     relocate_walk offset src dest = Inr (Owner offset) \<or>
     relocate_walk offset src dest = Inr Trailing"
proof (induction src arbitrary: dest)
  case Nil
  then show ?case by simp
next
  case (Cons s ss)
  from Cons.prems(1) obtain d ds where dest: "dest = d # ds"
    and d: "PointerToRawData d = PointerToRawData s" and rest: "same_raw ss ds"
    by (cases dest) (auto simp: same_raw_def)
  show ?case
  proof (cases "ss = []")
    case True
    then show ?thesis by (simp add: dest d)
  next
    case False
    from Cons.IH[OF rest False] show ?thesis by (auto simp: dest d)
  qed
qed

lemma back_to_raw_same:
  "map PointerToRawData ds = map PointerToRawData ss \<Longrightarrow>
   map SizeOfRawData ds = map SizeOfRawData ss \<Longrightarrow>
   \<exists>s\<in>set ss. PointerToRawData s \<noteq> 0 \<Longrightarrow>
   \<exists>d s. back_to_raw ds = Inr d \<and> back_to_raw ss = Inr s \<and>
     PointerToRawData d = PointerToRawData s \<and> SizeOfRawData d = SizeOfRawData s"
proof (induction ss arbitrary: ds)
  case Nil
  then show ?case by simp
next
  case (Cons s ss)
  then obtain d ds' where "ds = d # ds'" by (cases ds) auto
  with Cons show ?case by auto
qed

text \<open>
  C7.  When no entry's raw-data offset or size differs between the source and the
  destination table, and some section has a raw-data offset, \<open>relocate_offset\<close>
  returns every offset unchanged.
\<close>

theorem relocate_offset_identity:
  assumes "same_raw src dest" and "\<exists>s\<in>set src. PointerToRawData s \<noteq> 0"
  shows "relocate_offset offset src dest = Inr offset"
proof -
  from assms(2) have ne: "src \<noteq> []" by auto
  from assms(1) have r: "map PointerToRawData (rev dest) = map PointerToRawData (rev src)"
     "map SizeOfRawData (rev dest) = map SizeOfRawData (rev src)"
    by (simp_all add: same_raw_def rev_map[symmetric])
  from assms(2) have "\<exists>s\<in>set (rev src). PointerToRawData s \<noteq> 0" by simp
  from back_to_raw_same[OF r this] obtain d s where
    b: "back_to_raw (rev dest) = Inr d" "back_to_raw (rev src) = Inr s"
       "PointerToRawData d = PointerToRawData s" "SizeOfRawData d = SizeOfRawData s" by blast
  from walk_same[OF assms(1) ne, of offset] show ?thesis
    by (auto simp: relocate_offset_def b)
qed

theorem relocate_offset_identity_witness:
  "same_raw ex_src ex_src \<and> relocate_offset 390 ex_src ex_src = Inr 390 \<and>
   relocate_offset 450 ex_src ex_src = Inr 450"
proof -
  have s: "same_raw ex_src ex_src" by (simp add: same_raw_def)
  have e: "\<exists>s\<in>set ex_src. PointerToRawData s \<noteq> 0"
    by (simp add: ex_src_def mk_section_def)
  from relocate_offset_identity[OF s e] s show ?thesis by simp
qed

subsection \<open>\<open>find_section\<close>\<close>

text \<open>
  C9.  \<open>find_section\<close> compares with \<open>strcmp\<close>, which stops at a NUL and not at
  the end of the 8-byte name field.  In the table \<open>ex_textbss\<close> the name field of the
  first section is exactly the 8 bytes of \<open>.textbss\<close>; the comparison reads on into
  \<open>VirtualSize\<close> (\<open>0x1234\<close>, low byte not 0), and the section is not found.
\<close>

theorem find_section_misses_full_width_name:
  "name_field (ex_textbss ! 0) = bytes_of ''.textbss'' \<and>
   find_section ''.textbss'' ex_textbss = Inr None"
  by code_simp

subsection \<open>The bss blocks of the copier\<close>

lemma put_fits:
  "dst st + length bs \<le> length (bytes (out st)) \<Longrightarrow>
   put msg src bs st =
     Inr (st\<lparr> out := (out st)\<lparr> bytes := take (dst st) (bytes (out st)) @ bs @
                                          drop (dst st + length bs) (bytes (out st)) \<rparr>,
              dst := dst st + length bs,
              chunks := chunks st @
                [\<lparr> message = msg, source = src, target = dst st, count = length bs \<rparr>] \<rparr>)"
  by (cases "bs = []") (simp_all add: put_def write_bytes_def)

lemma length_proc_bytes [simp]: "length (proc_bytes proc addr n) = n"
  by (simp add: proc_bytes_def)

lemma flip_bits:
  fixes a b c :: "'a::len word"
  shows "a AND b = 0 \<Longrightarrow> ((c AND NOT a) OR b) AND a = 0"
    and "((c AND NOT a) OR b) AND b = b"
  by (auto simp: bit_eq_iff bit_and_iff bit_or_iff bit_not_iff)

lemma flip_flags:
  "((c AND NOT IMAGE_SCN_CNT_UNINITIALIZED_DATA) OR IMAGE_SCN_CNT_INITIALIZED_DATA)
      AND IMAGE_SCN_CNT_UNINITIALIZED_DATA = 0"
  "((c AND NOT IMAGE_SCN_CNT_UNINITIALIZED_DATA) OR IMAGE_SCN_CNT_INITIALIZED_DATA)
      AND IMAGE_SCN_CNT_INITIALIZED_DATA = IMAGE_SCN_CNT_INITIALIZED_DATA"
proof -
  have "IMAGE_SCN_CNT_UNINITIALIZED_DATA AND IMAGE_SCN_CNT_INITIALIZED_DATA = 0"
    by (simp add: IMAGE_SCN_CNT_UNINITIALIZED_DATA_def IMAGE_SCN_CNT_INITIALIZED_DATA_def)
  then show "((c AND NOT IMAGE_SCN_CNT_UNINITIALIZED_DATA) OR IMAGE_SCN_CNT_INITIALIZED_DATA)
      AND IMAGE_SCN_CNT_UNINITIALIZED_DATA = 0"
    by (rule flip_bits(1))
  show "((c AND NOT IMAGE_SCN_CNT_UNINITIALIZED_DATA) OR IMAGE_SCN_CNT_INITIALIZED_DATA)
      AND IMAGE_SCN_CNT_INITIALIZED_DATA = IMAGE_SCN_CNT_INITIALIZED_DATA"
    by (rule flip_bits(2))
qed

text \<open>
  C1 as stated, without the rounding, fails: a range that ends at offset 40 of the
  output, in a section with no raw data that starts at 16, leaves the cursor at 48
  and a raw-data size of 32, not 40 and 24.
\<close>

theorem dump_bss_rounds_the_end:
  "map_sum id dst (dump_bss DumpingBssData ex_bss_proc 0x402004 20 0 16 ex_bss_copier) = Inr 48 \<and>
   map_sum id (\<lambda>st. SizeOfRawData (dst_section st 0))
     (dump_bss DumpingBssData ex_bss_proc 0x402004 20 0 16 ex_bss_copier) = Inr 32 \<and>
   max (16 + unat (SizeOfRawData (dst_section ex_bss_copier 0)))
       (16 + unat (RVA_TO_SECTION_OFFSET (PTR_TO_RVA ex_bss_proc 0x402004)
                     (dst_section ex_bss_copier 0)) + unat (20 :: DWORD)) = 40"
  by (simp add: dump_bss_def COPY_PROC_CHUNK_def put_def write_bytes_def seq_def Let_def
      ROUND_UP_DST_def set_dst_section_def dst_section_def dst_align_def ROUND_UP_def
      ex_bss_copier_def ex_bss_proc_def blank_image_def mk_section_def
      RVA_TO_SECTION_OFFSET_def PTR_TO_RVA_def proc_bytes_def)


subsection \<open>The copier, step by step\<close>

lemma ROUND_UP_Suc: "ROUND_UP p (Suc a) = ((p + a) div Suc a) * Suc a"
  by (simp add: ROUND_UP_def)

lemma ROUND_UP_ge: "0 < a \<Longrightarrow> p \<le> ROUND_UP p a"
proof -
  assume "0 < a"
  then obtain b where a: "a = Suc b" by (cases a) auto
  have "(p + b) mod Suc b \<le> b" by (simp add: less_Suc_eq_le[symmetric])
  moreover have "(p + b) div Suc b * Suc b = (p + b) - (p + b) mod Suc b"
    by (simp add: minus_mod_eq_div_mult)
  ultimately show ?thesis unfolding a ROUND_UP_Suc by linarith
qed

lemma ROUND_UP_dvd: "a dvd ROUND_UP p a"
  by (simp add: ROUND_UP_def)

lemma ROUND_UP_add: "0 < a \<Longrightarrow> a dvd c \<Longrightarrow> ROUND_UP (c + x) a = c + ROUND_UP x a"
proof -
  assume "0 < a" and d: "a dvd c"
  then obtain b where a: "a = Suc b" by (cases a) auto
  from d obtain q where "c = a * q" by (rule dvdE)
  then have c: "c = q * Suc b" by (simp only: a mult.commute)
  have e: "q * Suc b + x + b = (x + b) + q * Suc b"
    by (rule trans[OF add.assoc add.commute])
  have "(q * Suc b + x + b) div Suc b = q + (x + b) div Suc b"
    unfolding e by (rule div_mult_self1) simp
  then have "(q * Suc b + x + b) div Suc b * Suc b = q * Suc b + (x + b) div Suc b * Suc b"
    by (simp only: add_mult_distrib)
  then show ?thesis unfolding a c ROUND_UP_Suc by (simp only: add.assoc)
qed

lemma ROUND_UP_id: "0 < a \<Longrightarrow> a dvd p \<Longrightarrow> ROUND_UP p a = p"
proof -
  assume a: "0 < a" and d: "a dvd p"
  have "ROUND_UP 0 a = 0" using a by (simp add: ROUND_UP_def)
  with ROUND_UP_add[OF a d, of 0] show ?thesis by simp
qed

lemma ROUND_UP_idem: "0 < a \<Longrightarrow> ROUND_UP (ROUND_UP p a) a = ROUND_UP p a"
proof -
  assume a: "0 < a"
  have d: "a dvd ROUND_UP p a" by (rule ROUND_UP_dvd)
  from ROUND_UP_id[OF a d] show ?thesis .
qed

lemma ROUND_UP_mono: "p \<le> q \<Longrightarrow> ROUND_UP p a \<le> ROUND_UP q a"
  unfolding ROUND_UP_def
  by (intro mult_le_mono1 div_le_mono) simp

lemma write_bytes_ok:
  "bs = [] \<or> at + length bs \<le> length buf \<Longrightarrow> write_bytes at bs buf = Some (overwrite at bs buf)"
  by (auto simp: write_bytes_def overwrite_def)

lemma length_overwrite:
  "bs = [] \<or> at + length bs \<le> length buf \<Longrightarrow> length (overwrite at bs buf) = length buf"
  by (auto simp: overwrite_def)

lemma take_overwrite:
  "n \<le> at \<Longrightarrow> bs = [] \<or> at + length bs \<le> length buf \<Longrightarrow> take n (overwrite at bs buf) = take n buf"
  by (auto simp: overwrite_def min_def)

lemma put_ok:
  "bs = [] \<or> dst st + length bs \<le> length (bytes (out st)) \<Longrightarrow>
   put msg src bs st =
     Inr (st\<lparr> out := (out st)\<lparr> bytes := overwrite (dst st) bs (bytes (out st)) \<rparr>,
              dst := dst st + length bs,
              chunks := chunks st @
                [\<lparr> message = msg, source = src, target = dst st, count = length bs \<rparr>] \<rparr>)"
  by (simp add: put_def write_bytes_ok)

lemma length_read:
  "read_bytes at n buf = Some bs \<Longrightarrow> length bs = n"
  by (auto simp: read_bytes_def split: if_splits)

lemma read_bytes_ok:
  "n = 0 \<or> at + n \<le> length buf \<Longrightarrow> read_bytes at n buf = Some (take n (drop at buf))"
  by (auto simp: read_bytes_def)

lemma COPY_CHUNK_ok:
  assumes "n = 0 \<or> src + n \<le> length (bytes (mapping f))"
    and "n = 0 \<or> dst st + n \<le> length (bytes (out st))"
  shows "COPY_CHUNK msg f src n st =
     Inr (st\<lparr> out := (out st)\<lparr> bytes :=
                  overwrite (dst st) (take n (drop src (bytes (mapping f)))) (bytes (out st)) \<rparr>,
              dst := dst st + n,
              chunks := chunks st @
                [\<lparr> message = msg, source = src, target = dst st, count = n \<rparr>] \<rparr>)"
proof -
  let ?bs = "take n (drop src (bytes (mapping f)))"
  have l: "length ?bs = n"
    using assms(1) by auto
  have "?bs = [] \<or> dst st + length ?bs \<le> length (bytes (out st))"
    using assms(2) l by auto
  from put_ok[OF this, unfolded l] show ?thesis
    unfolding COPY_CHUNK_def read_bytes_ok[OF assms(1)] by simp
qed

lemma COPY_PROC_CHUNK_ok:
  assumes "n = 0 \<or> dst st + n \<le> length (bytes (out st))"
  shows "COPY_PROC_CHUNK msg proc addr n st =
     Inr (st\<lparr> out := (out st)\<lparr> bytes :=
                  overwrite (dst st) (proc_bytes proc addr n) (bytes (out st)) \<rparr>,
              dst := dst st + n,
              chunks := chunks st @
                [\<lparr> message = msg, source = unat addr, target = dst st, count = n \<rparr>] \<rparr>)"
  unfolding COPY_PROC_CHUNK_def using assms by (simp add: put_ok proc_bytes_def)

lemma ROUND_UP_DST_AND_ZERO_ok:
  assumes "0 < dst_align st" and "ROUND_UP (dst st) (dst_align st) \<le> length (bytes (out st))"
  shows "ROUND_UP_DST_AND_ZERO st =
     Inr (st\<lparr> out := (out st)\<lparr> bytes :=
                  overwrite (dst st) (replicate (ROUND_UP (dst st) (dst_align st) - dst st) 0)
                    (bytes (out st)) \<rparr>,
              dst := ROUND_UP (dst st) (dst_align st) \<rparr>)"
proof -
  have ge: "dst st \<le> ROUND_UP (dst st) (dst_align st)"
    using assms(1) by (rule ROUND_UP_ge)
  then show ?thesis
    unfolding ROUND_UP_DST_AND_ZERO_def Let_def
    using assms(2) by (simp add: write_bytes_ok)
qed

lemma COPY_CHUNK_view:
  assumes "n = 0 \<or> src + n \<le> length (bytes (mapping f))"
    and "n = 0 \<or> dst st + n \<le> length (bytes (out st))"
  shows "\<exists>st'. COPY_CHUNK msg f src n st = Inr st' \<and>
           view st' = (dst st + n, sections (out st), nt (out st), length (bytes (out st)))"
proof -
  have "(take n (drop src (bytes (mapping f)))) = [] \<or>
      dst st + length (take n (drop src (bytes (mapping f)))) \<le> length (bytes (out st))"
    using assms by auto
  then show ?thesis
    unfolding COPY_CHUNK_ok[OF assms] view_def
    by (simp add: length_overwrite del: length_take)
qed

lemma COPY_PROC_CHUNK_view:
  assumes "n = 0 \<or> dst st + n \<le> length (bytes (out st))"
  shows "\<exists>st'. COPY_PROC_CHUNK msg proc addr n st = Inr st' \<and>
           view st' = (dst st + n, sections (out st), nt (out st), length (bytes (out st)))"
proof -
  have "proc_bytes proc addr n = [] \<or> dst st + length (proc_bytes proc addr n) \<le> length (bytes (out st))"
    using assms by (auto simp: proc_bytes_def)
  then show ?thesis
    unfolding COPY_PROC_CHUNK_ok[OF assms] view_def
    by (simp add: length_overwrite)
qed

lemma ROUND_UP_DST_AND_ZERO_view:
  assumes "0 < dst_align st" and "ROUND_UP (dst st) (dst_align st) \<le> length (bytes (out st))"
  shows "\<exists>st'. ROUND_UP_DST_AND_ZERO st = Inr st' \<and>
           view st' = (ROUND_UP (dst st) (dst_align st), sections (out st), nt (out st),
                       length (bytes (out st)))"
proof -
  have "dst st \<le> ROUND_UP (dst st) (dst_align st)"
    using assms(1) by (rule ROUND_UP_ge)
  with assms(2) have "replicate (ROUND_UP (dst st) (dst_align st) - dst st) (0::BYTE) = [] \<or>
      dst st + length (replicate (ROUND_UP (dst st) (dst_align st) - dst st) (0::BYTE))
        \<le> length (bytes (out st))"
    by simp
  then show ?thesis
    unfolding ROUND_UP_DST_AND_ZERO_ok[OF assms] view_def
    by (simp add: length_overwrite del: length_replicate)
qed

lemma dump_data_view:
  assumes "view st = (c', secs, h, L)" and "j < length secs"
    and "data_size info = 0 \<or> c + data_end proc info (secs ! j) \<le> L"
  shows "\<exists>st'. dump_data proc info j c st = Inr st' \<and>
           view st' = (c + unat (SizeOfRawData (secs ! j)), secs, h, L)"
proof -
  let ?st = "st\<lparr> dst := c + unat (RVA_TO_SECTION_OFFSET (PTR_TO_RVA proc (data_start info))
                         (dst_section st j)) \<rparr>"
  have "unat (data_size info) = 0 \<or> dst ?st + unat (data_size info) \<le> length (bytes (out ?st))"
    using assms by (auto simp: view_def data_end_def dst_section_def unat_eq_0)
  from COPY_PROC_CHUNK_view[OF this, of DumpingInitializedData proc "data_start info"]
  obtain st1 where "COPY_PROC_CHUNK DumpingInitializedData proc (data_start info)
      (unat (data_size info)) ?st = Inr st1"
    and "view st1 = (dst ?st + unat (data_size info), secs, h, L)"
    using assms(1) by (auto simp: view_def)
  then show ?thesis
    by (simp add: dump_data_def seq_def view_def dst_section_def)
qed

lemma dump_bss_view:
  assumes "view st = (c', secs, h, L)" and "j < length secs"
    and "sz = 0 \<or> c + unat (RVA_TO_SECTION_OFFSET (PTR_TO_RVA proc start) (secs ! j)) + unat sz \<le> L"
  shows "\<exists>st'. dump_bss msg proc start sz j c st = Inr st' \<and>
           view st' =
             (max (ROUND_UP (c + unat (RVA_TO_SECTION_OFFSET (PTR_TO_RVA proc start) (secs ! j))
                               + unat sz) (unat (FileAlignment h)))
                  (c + unat (SizeOfRawData (secs ! j))),
              secs[j := (secs ! j)\<lparr>
                 PointerToRawData := of_nat c,
                 SizeOfRawData := of_nat
                   (max (ROUND_UP (c + unat (RVA_TO_SECTION_OFFSET (PTR_TO_RVA proc start) (secs ! j))
                               + unat sz) (unat (FileAlignment h)))
                        (c + unat (SizeOfRawData (secs ! j))) - c),
                 Characteristics :=
                   (Characteristics (secs ! j) AND NOT IMAGE_SCN_CNT_UNINITIALIZED_DATA)
                     OR IMAGE_SCN_CNT_INITIALIZED_DATA \<rparr>],
              h, L)"
proof -
  let ?st = "st\<lparr> dst := c + unat (RVA_TO_SECTION_OFFSET (PTR_TO_RVA proc start)
                         (dst_section st j)) \<rparr>"
  have "unat sz = 0 \<or> dst ?st + unat sz \<le> length (bytes (out ?st))"
    using assms by (auto simp: view_def dst_section_def unat_eq_0)
  from COPY_PROC_CHUNK_view[OF this, of msg proc start]
  obtain st1 where s1: "COPY_PROC_CHUNK msg proc start (unat sz) ?st = Inr st1"
    and v1: "view st1 = (dst ?st + unat sz, secs, h, L)"
    using assms(1) by (auto simp: view_def)
  show ?thesis
    unfolding dump_bss_def s1 seq_def
    using v1 assms(1,2)
    by (simp add: view_def Let_def ROUND_UP_DST_def set_dst_section_def dst_section_def
        dst_align_def)
qed

lemma RVA_TO_SECTION_OFFSET_upd [simp]:
  "RVA_TO_SECTION_OFFSET rva (s\<lparr> PointerToRawData := p \<rparr>) = RVA_TO_SECTION_OFFSET rva s"
  by (simp add: RVA_TO_SECTION_OFFSET_def)

lemma seq_Inr: "seq (Inr x) f = f x"
  by (simp add: seq_def)

lemma set_dst_section_view:
  "view (set_dst_section j d st) = (dst st, (sections (out st))[j := d], nt (out st), length (bytes (out st)))"
  by (simp add: view_def set_dst_section_def)

lemma flip_twice:
  fixes a b c :: "'a::len word"
  shows "((((c AND NOT a) OR b) AND NOT a) OR b) = ((c AND NOT a) OR b)"
  by (auto simp: bit_eq_iff bit_and_iff bit_or_iff bit_not_iff)

lemma next_dst_bounds:
  assumes a: "0 < a"
  shows "c + unat (SizeOfRawData s) \<le> ROUND_UP (c + unat (SizeOfRawData s)) a"
    and "ROUND_UP (c + unat (SizeOfRawData s)) a \<le> next_dst a proc info j c s"
    and "grown_end a proc info j c s \<le> next_dst a proc info j c s"
    and "Some j = bss_section info \<Longrightarrow> bss_end proc info c s \<le> next_dst a proc info j c s"
    and "Some j = bss_section_static info \<Longrightarrow>
           bss_end_static proc info c s \<le> next_dst a proc info j c s"
proof -
  show "c + unat (SizeOfRawData s) \<le> ROUND_UP (c + unat (SizeOfRawData s)) a"
    using a by (rule ROUND_UP_ge)
  have "c + unat (SizeOfRawData s) \<le> grown_end a proc info j c s"
    by (simp add: grown_end_def Let_def le_max_iff_disj)
  then show "ROUND_UP (c + unat (SizeOfRawData s)) a \<le> next_dst a proc info j c s"
    unfolding next_dst_def by (rule ROUND_UP_mono)
  show g: "grown_end a proc info j c s \<le> next_dst a proc info j c s"
    unfolding next_dst_def using a by (rule ROUND_UP_ge)
  show "bss_end proc info c s \<le> next_dst a proc info j c s" if "Some j = bss_section info"
  proof -
    from that have "ROUND_UP (bss_end proc info c s) a \<le> grown_end a proc info j c s"
      by (simp add: grown_end_def Let_def le_max_iff_disj)
    moreover have "bss_end proc info c s \<le> ROUND_UP (bss_end proc info c s) a"
      using a by (rule ROUND_UP_ge)
    ultimately show ?thesis using g by linarith
  qed
  show "bss_end_static proc info c s \<le> next_dst a proc info j c s"
    if "Some j = bss_section_static info"
  proof -
    from that have "ROUND_UP (bss_end_static proc info c s) a \<le> grown_end a proc info j c s"
      by (simp add: grown_end_def Let_def)
    moreover have "bss_end_static proc info c s \<le> ROUND_UP (bss_end_static proc info c s) a"
      using a by (rule ROUND_UP_ge)
    ultimately show ?thesis using g by linarith
  qed
qed

lemma copy_section_view:
  assumes v: "view st = (c, secs, h, L)"
    and j: "j < length secs"
    and a: "0 < unat (FileAlignment h)"
    and src: "sections (mapping f) ! j = s" and dst: "secs ! j = s"
    and rd: "SizeOfRawData s = 0 \<or>
             unat (PointerToRawData s) + unat (SizeOfRawData s) \<le> length (bytes (mapping f))"
    and dat: "Some j = data_section info \<Longrightarrow>
             data_size info = 0 \<or> data_end proc info s \<le> unat (SizeOfRawData s)"
    and wr: "next_dst (unat (FileAlignment h)) proc info j c s \<le> L"
    and big: "Some j = bss_section_static info \<Longrightarrow> L < 2 ^ 32"
  shows "\<exists>st'. copy_section proc info f j st = Inr st' \<and>
     view st' = (next_dst (unat (FileAlignment h)) proc info j c s,
                 secs[j := new_entry (unat (FileAlignment h)) proc info j c s], h, L)"
proof -
  let ?a = "unat (FileAlignment h)"
  let ?S = "unat (SizeOfRawData s)"
  let ?flip = "(Characteristics s AND NOT IMAGE_SCN_CNT_UNINITIALIZED_DATA)
                 OR IMAGE_SCN_CNT_INITIALIZED_DATA"
  let ?s0 = "if PointerToRawData s \<noteq> 0 then s\<lparr> PointerToRawData := of_nat c \<rparr> else s"
  let ?e1 = "if Some j = bss_section info
             then max (ROUND_UP (bss_end proc info c s) ?a) (c + ?S) else c + ?S"
  let ?s1 = "if Some j = bss_section info
             then s\<lparr> PointerToRawData := of_nat c, SizeOfRawData := of_nat (?e1 - c),
                     Characteristics := ?flip \<rparr>
             else ?s0"
  let ?d3 = "if Some j = data_section info then c + ?S else ROUND_UP (c + ?S) ?a"
  let ?d4 = "if Some j = bss_section info then ?e1 else ?d3"
  let ?G = "grown_end ?a proc info j c s"
  let ?d5 = "if Some j = bss_section_static info then ?G else ?d4"
  define st0 where "st0 = (if PointerToRawData (dst_section st j) \<noteq> 0
                then set_dst_section j
                       ((dst_section st j)\<lparr> PointerToRawData := of_nat (dst st) \<rparr>) st
                else st)"
  have v0: "view st0 = (c, secs[j := ?s0], h, L)"
    using v j dst by (auto simp: st0_def view_def set_dst_section_def dst_section_def)
  have nb: "c + ?S \<le> ROUND_UP (c + ?S) ?a"
    "ROUND_UP (c + ?S) ?a \<le> next_dst ?a proc info j c s"
    "?G \<le> next_dst ?a proc info j c s"
    "Some j = bss_section info \<Longrightarrow> bss_end proc info c s \<le> next_dst ?a proc info j c s"
    "Some j = bss_section_static info \<Longrightarrow>
       bss_end_static proc info c s \<le> next_dst ?a proc info j c s"
    by (rule next_dst_bounds[OF a] | assumption)+
  have G: "?G = (if Some j = bss_section_static info
                 then max (ROUND_UP (bss_end_static proc info c s) ?a) ?e1 else ?e1)"
    by (simp add: grown_end_def Let_def)
  have e1: "c + ?S \<le> ?e1" "?e1 \<le> ?G" by (simp_all add: G)
  have "unat (SizeOfRawData s) = 0 \<or>
        unat (PointerToRawData s) + unat (SizeOfRawData s) \<le> length (bytes (mapping f))"
    using rd by (auto simp: unat_eq_0)
  moreover have "unat (SizeOfRawData s) = 0 \<or> dst st0 + unat (SizeOfRawData s) \<le> length (bytes (out st0))"
    using v0 nb(1,2) wr by (simp add: view_def)
  ultimately obtain st1 where s1: "COPY_CHUNK (CopyingRawData j) f
      (unat (PointerToRawData s)) (unat (SizeOfRawData s)) st0 = Inr st1"
    and v1: "view st1 = (c + unat (SizeOfRawData s), secs[j := ?s0], h, L)"
    using COPY_CHUNK_view[of "unat (SizeOfRawData s)" "unat (PointerToRawData s)" f st0 "CopyingRawData j"] v0
    by (auto simp: view_def)
  have "0 < dst_align st1" "ROUND_UP (dst st1) (dst_align st1) \<le> length (bytes (out st1))"
    using v1 a nb(2) wr by (auto simp: view_def dst_align_def)
  from ROUND_UP_DST_AND_ZERO_view[OF this] obtain st2 where
    s2: "ROUND_UP_DST_AND_ZERO st1 = Inr st2"
    and v2: "view st2 = (ROUND_UP (c + unat (SizeOfRawData s)) ?a, secs[j := ?s0], h, L)"
    using v1 by (auto simp: view_def dst_align_def)
  have j0: "j < length (secs[j := ?s0])" using j by simp
  have e0: "secs[j := ?s0] ! j = ?s0" using j by simp
  obtain st3 where s3: "(if Some j = data_section info then dump_data proc info j c st2
           else Inr st2) = Inr st3"
    and v3: "view st3 = (?d3, secs[j := ?s0], h, L)"
  proof (cases "Some j = data_section info")
    case True
    have "data_size info = 0 \<or> c + data_end proc info (secs[j := ?s0] ! j) \<le> L"
      using dat[OF True] nb(1,2) wr unfolding e0 by (auto simp: data_end_def)
    from dump_data_view[OF v2 j0 this] True that show ?thesis
      unfolding e0 by auto
  next
    case False
    with v2 that show ?thesis by auto
  qed
  obtain st4 where s4: "(if Some j = bss_section info
           then dump_bss DumpingBssData proc (bss_start info) (bss_size info) j c st3
           else Inr st3) = Inr st4"
    and v4: "view st4 = (?d4, secs[j := ?s1], h, L)"
  proof (cases "Some j = bss_section info")
    case True
    have "bss_size info = 0 \<or> c + unat (RVA_TO_SECTION_OFFSET (PTR_TO_RVA proc (bss_start info))
              (secs[j := ?s0] ! j)) + unat (bss_size info) \<le> L"
      using nb(4)[OF True] wr unfolding e0 by (auto simp: bss_end_def)
    from dump_bss_view[OF v3 j0 this, of DumpingBssData] obtain st4 where
      "dump_bss DumpingBssData proc (bss_start info) (bss_size info) j c st3 = Inr st4"
      and "view st4 = (?d4, secs[j := ?s1], h, L)"
      unfolding e0 using True
      by (auto simp: bss_end_def)
    with True that show ?thesis by auto
  next
    case False
    with v3 that show ?thesis by auto
  qed
  have j1: "j < length (secs[j := ?s1])" using j by simp
  have k1: "RVA_TO_SECTION_OFFSET r ?s1 = RVA_TO_SECTION_OFFSET r s" for r
    by (simp add: RVA_TO_SECTION_OFFSET_def)
  obtain st5 where s5: "(if Some j = bss_section_static info
           then dump_bss DumpingStaticBssData proc
                  (bss_start_static info) (bss_size_static info) j c st4
           else Inr st4) = Inr st5"
    and v5: "view st5 = (?d5, secs[j := new_entry ?a proc info j c s], h, L)"
  proof (cases "Some j = bss_section_static info")
    case True
    have lt: "?e1 - c < 2 ^ 32" using e1(2) nb(3) wr big[OF True] by linarith
    have k2: "c + unat (SizeOfRawData ?s1) = ?e1"
    proof (cases "Some j = bss_section info")
      case True
      have "unat (of_nat (?e1 - c) :: DWORD) = ?e1 - c"
        using lt by (simp add: unat_of_nat take_bit_nat_eq_self)
      with True e1(1) show ?thesis by simp
    next
      case False
      then show ?thesis by simp
    qed
    have k3: "?s1\<lparr> PointerToRawData := of_nat c, SizeOfRawData := of_nat (?G - c),
                  Characteristics :=
                    (Characteristics ?s1 AND NOT IMAGE_SCN_CNT_UNINITIALIZED_DATA)
                      OR IMAGE_SCN_CNT_INITIALIZED_DATA \<rparr>
              = new_entry ?a proc info j c s"
      using True by (simp add: new_entry_def flip_twice)
    have fit: "bss_size_static info = 0 \<or>
        c + unat (RVA_TO_SECTION_OFFSET (PTR_TO_RVA proc (bss_start_static info))
              (secs[j := ?s1] ! j)) + unat (bss_size_static info) \<le> L"
      using nb(5)[OF True] wr j unfolding nth_list_update_eq[OF j] k1
      by (simp add: bss_end_static_def)
    have G': "max (ROUND_UP (c + unat (RVA_TO_SECTION_OFFSET (PTR_TO_RVA proc (bss_start_static info)) s)
                 + unat (bss_size_static info)) ?a) ?e1 = ?G"
      unfolding G using True by (simp add: bss_end_static_def)
    from dump_bss_view[OF v4 j1 fit, of DumpingStaticBssData] obtain st5 where
      d5: "dump_bss DumpingStaticBssData proc
             (bss_start_static info) (bss_size_static info) j c st4 = Inr st5"
      and w5: "view st5 = (?G, secs[j := new_entry ?a proc info j c s], h, L)"
      unfolding nth_list_update_eq[OF j] k1 k2 G' k3 list_update_overwrite
      by blast
    from True d5 w5 that show ?thesis by simp
  next
    case False
    have "?s1 = new_entry ?a proc info j c s"
      using False by (simp add: new_entry_def G)
    with False v4 that show ?thesis by simp
  qed
  have r: "ROUND_UP ?d5 ?a = next_dst ?a proc info j c s"
    unfolding next_dst_def G using a by (simp add: ROUND_UP_idem)
  have v6: "view (ROUND_UP_DST st5) = (next_dst ?a proc info j c s,
                 secs[j := new_entry ?a proc info j c s], h, L)"
    using v5 r by (simp add: view_def ROUND_UP_DST_def dst_align_def)
  have c: "c = dst st" using v by (simp add: view_def)
  have "copy_section proc info f j st = Inr (ROUND_UP_DST st5)"
    unfolding copy_section_def Let_def src st0_def[symmetric]
    by (simp only: seq_Inr s1 s2 s3[unfolded c] s4[unfolded c] s5[unfolded c])
  with v6 show ?thesis by simp
qed

lemma grown_end_dvd:
  "c + unat (SizeOfRawData s) < grown_end a proc info j c s \<Longrightarrow> a dvd grown_end a proc info j c s"
  by (auto simp: grown_end_def Let_def max_def ROUND_UP_dvd split: if_splits)

text \<open>
  C1 (as amended).  The pass of the loop over section \<open>j\<close>, when a bss range, the
  static bss range, or both are dumped into that section, the destination entry is
  still the copy of the source entry, and the output is large enough: the section's
  raw data then ends at \<open>G\<close>, the maximum of the end of the raw data it had and the
  end of each dumped range rounded up to the file alignment (\<open>grown_end\<close>).
  \<open>SizeOfRawData\<close> becomes \<open>G\<close> minus the start of the section's raw data, which
  \<open>PointerToRawData\<close> is set to; the flag for uninitialized data is cleared and
  the one for initialized data set; and the cursor is left at \<open>G\<close> rounded up to
  the alignment, which is \<open>G\<close> itself whenever the section has grown.
\<close>

theorem copy_section_bss_extent:
  fixes st :: copier and f :: file_data and j :: nat
    and proc :: process and info :: section_info
  defines "s \<equiv> sections (out st) ! j"
    and "G \<equiv> grown_end (dst_align st) proc info j (dst st) (sections (out st) ! j)"
  assumes own: "Some j = bss_section info \<or> Some j = bss_section_static info"
    and j: "j < length (sections (out st))"
    and a: "0 < dst_align st"
    and src: "sections (mapping f) ! j = s"
    and rd: "SizeOfRawData s = 0 \<or>
             unat (PointerToRawData s) + unat (SizeOfRawData s) \<le> length (bytes (mapping f))"
    and dat: "Some j = data_section info \<Longrightarrow>
             data_size info = 0 \<or> data_end proc info s \<le> unat (SizeOfRawData s)"
    and wr: "ROUND_UP G (dst_align st) \<le> length (bytes (out st))"
    and big: "length (bytes (out st)) < 2 ^ 32"
  shows "\<exists>st'. copy_section proc info f j st = Inr st' \<and>
     dst st' = ROUND_UP G (dst_align st) \<and>
     (dst st + unat (SizeOfRawData s) < G \<longrightarrow> dst st' = G) \<and>
     SizeOfRawData (sections (out st') ! j) = of_nat (G - dst st) \<and>
     PointerToRawData (sections (out st') ! j) = of_nat (dst st) \<and>
     Characteristics (sections (out st') ! j) =
       (Characteristics s AND NOT IMAGE_SCN_CNT_UNINITIALIZED_DATA)
         OR IMAGE_SCN_CNT_INITIALIZED_DATA \<and>
     Characteristics (sections (out st') ! j) AND IMAGE_SCN_CNT_UNINITIALIZED_DATA = 0 \<and>
     Characteristics (sections (out st') ! j) AND IMAGE_SCN_CNT_INITIALIZED_DATA
       = IMAGE_SCN_CNT_INITIALIZED_DATA"
proof -
  let ?a = "unat (FileAlignment (nt (out st)))"
  have v: "view st = (dst st, sections (out st), nt (out st), length (bytes (out st)))"
    by (simp add: view_def)
  have a': "0 < ?a" using a by (simp add: dst_align_def)
  have d: "sections (out st) ! j = s" by (simp add: s_def)
  have wr': "next_dst ?a proc info j (dst st) s \<le> length (bytes (out st))"
    using wr by (simp add: next_dst_def G_def s_def dst_align_def)
  from copy_section_view[OF v j a' src d rd dat wr' big]
  obtain st' where r: "copy_section proc info f j st = Inr st'"
    and v': "view st' = (next_dst ?a proc info j (dst st) s,
                 (sections (out st))[j := new_entry ?a proc info j (dst st) s],
                 nt (out st), length (bytes (out st)))"
    by blast
  have n: "next_dst ?a proc info j (dst st) s = ROUND_UP G (dst_align st)"
    by (simp add: next_dst_def G_def s_def dst_align_def)
  have e: "sections (out st') ! j = new_entry ?a proc info j (dst st) s"
    using v' j by (simp add: view_def)
  have g: "grown_end ?a proc info j (dst st) s = G"
    by (simp add: G_def s_def dst_align_def)
  have 1: "dst st' = ROUND_UP G (dst_align st)" using v' n by (simp add: view_def)
  have 2: "dst st + unat (SizeOfRawData s) < G \<longrightarrow> dst st' = G"
  proof
    assume "dst st + unat (SizeOfRawData s) < G"
    then have "dst_align st dvd G"
      unfolding G_def s_def by (rule grown_end_dvd)
    with a show "dst st' = G" unfolding 1 by (rule ROUND_UP_id)
  qed
  have 3: "SizeOfRawData (sections (out st') ! j) = of_nat (G - dst st)"
    "PointerToRawData (sections (out st') ! j) = of_nat (dst st)"
    "Characteristics (sections (out st') ! j) =
       (Characteristics s AND NOT IMAGE_SCN_CNT_UNINITIALIZED_DATA)
         OR IMAGE_SCN_CNT_INITIALIZED_DATA"
    unfolding e using own by (auto simp: new_entry_def g)
  show ?thesis
    using r 1 2 3 by (simp add: flip_flags)
qed

lemma next_dst_ge: "0 < a \<Longrightarrow> c \<le> next_dst a proc info j c s"
proof -
  assume a: "0 < a"
  have "c \<le> c + unat (SizeOfRawData s)" by simp
  also have "\<dots> \<le> ROUND_UP (c + unat (SizeOfRawData s)) a" by (rule next_dst_bounds(1)[OF a])
  also have "\<dots> \<le> next_dst a proc info j c s" by (rule next_dst_bounds(2)[OF a])
  finally show ?thesis .
qed

lemma layout_end_ge: "0 < a \<Longrightarrow> c \<le> layout_end a proc info j c ss"
proof (induction ss arbitrary: j c)
  case Nil
  then show ?case by simp
next
  case (Cons s ss)
  have "c \<le> next_dst a proc info j c s" using Cons.prems by (rule next_dst_ge)
  also have "\<dots> \<le> layout_end a proc info (Suc j) (next_dst a proc info j c s) ss"
    using Cons.prems by (rule Cons.IH)
  finally show ?case by simp
qed

lemma length_layout [simp]: "length (layout a proc info j c ss) = length ss"
  by (induction ss arbitrary: j c) auto

lemma copy_sections_view:
  assumes static: "bss_section_static info = None"
    and a: "0 < unat (FileAlignment h)"
  shows "view st = (c, done @ rest, h, L) \<Longrightarrow>
    sections (mapping f) = pre @ rest \<Longrightarrow> length pre = j \<Longrightarrow> length done = j \<Longrightarrow>
    \<forall>s\<in>set rest. SizeOfRawData s = 0 \<or>
       unat (PointerToRawData s) + unat (SizeOfRawData s) \<le> length (bytes (mapping f)) \<Longrightarrow>
    \<forall>i. data_section info = Some i \<longrightarrow> j \<le> i \<longrightarrow> i < j + length rest \<longrightarrow>
       data_size info = 0 \<or>
       data_end proc info (rest ! (i - j)) \<le> unat (SizeOfRawData (rest ! (i - j))) \<Longrightarrow>
    layout_end (unat (FileAlignment h)) proc info j c rest \<le> L \<Longrightarrow>
    \<exists>st'. copy_sections proc info f [j..<j + length rest] st = Inr st' \<and>
       view st' = (layout_end (unat (FileAlignment h)) proc info j c rest,
                   done @ layout (unat (FileAlignment h)) proc info j c rest, h, L)"
proof (induction rest arbitrary: st c "done" pre j)
  case Nil
  then show ?case by simp
next
  case (Cons s ss)
  let ?a = "unat (FileAlignment h)"
  let ?c = "next_dst ?a proc info j c s"
  have st: "bss_section_static info \<noteq> Some j" using static by simp
  have jl: "j < length (done @ s # ss)" using Cons.prems(4) by simp
  have src: "sections (mapping f) ! j = s" using Cons.prems(2,3) by (simp add: nth_append)
  have dst: "(done @ s # ss) ! j = s" using Cons.prems(4) by (simp add: nth_append)
  have rd: "SizeOfRawData s = 0 \<or>
       unat (PointerToRawData s) + unat (SizeOfRawData s) \<le> length (bytes (mapping f))"
    using Cons.prems(5) by simp
  have dat: "Some j = data_section info \<Longrightarrow>
             data_size info = 0 \<or> data_end proc info s \<le> unat (SizeOfRawData s)"
    using Cons.prems(6)[rule_format, of j] by auto
  have "?c \<le> layout_end ?a proc info (Suc j) ?c ss" using a by (rule layout_end_ge)
  with Cons.prems(7) have wr: "?c \<le> L" by simp
  have big: "Some j = bss_section_static info \<Longrightarrow> L < 2 ^ 32" using static by simp
  from copy_section_view[OF Cons.prems(1) jl a src dst rd dat wr big]
  obtain st1 where s1: "copy_section proc info f j st = Inr st1"
    and v1: "view st1 = (?c, (done @ s # ss)[j := new_entry ?a proc info j c s], h, L)"
    by blast
  have upd: "(done @ s # ss)[j := new_entry ?a proc info j c s]
      = (done @ [new_entry ?a proc info j c s]) @ ss"
    using Cons.prems(4) by (simp add: list_update_append)
  have p2: "sections (mapping f) = (pre @ [s]) @ ss" using Cons.prems(2) by simp
  have l2: "length (pre @ [s]) = Suc j" "length (done @ [new_entry ?a proc info j c s]) = Suc j"
    using Cons.prems(3,4) by simp_all
  have rd2: "\<forall>s\<in>set ss. SizeOfRawData s = 0 \<or>
       unat (PointerToRawData s) + unat (SizeOfRawData s) \<le> length (bytes (mapping f))"
    using Cons.prems(5) by simp
  have dat2: "\<forall>i. data_section info = Some i \<longrightarrow> Suc j \<le> i \<longrightarrow> i < Suc j + length ss \<longrightarrow>
       data_size info = 0 \<or>
       data_end proc info (ss ! (i - Suc j)) \<le> unat (SizeOfRawData (ss ! (i - Suc j)))"
  proof (intro allI impI)
    fix i assume h: "data_section info = Some i" "Suc j \<le> i" "i < Suc j + length ss"
    then have "(s # ss) ! (i - j) = ss ! (i - Suc j)"
      by (metis Suc_diff_le diff_Suc_Suc nth_Cons_Suc)
    with Cons.prems(6)[rule_format, of i] h
    show "data_size info = 0 \<or>
       data_end proc info (ss ! (i - Suc j)) \<le> unat (SizeOfRawData (ss ! (i - Suc j)))"
      by auto
  qed
  have wr2: "layout_end ?a proc info (Suc j) ?c ss \<le> L" using Cons.prems(7) by simp
  from Cons.IH[OF v1[unfolded upd] p2 l2 rd2 dat2 wr2]
  obtain st' where s2: "copy_sections proc info f [Suc j..<Suc j + length ss] st1 = Inr st'"
    and v2: "view st' = (layout_end ?a proc info (Suc j) ?c ss,
         (done @ [new_entry ?a proc info j c s]) @ layout ?a proc info (Suc j) ?c ss, h, L)"
    by blast
  have "[j..<j + Suc (length ss)] = j # [Suc j..<j + Suc (length ss)]"
    by (rule upt_conv_Cons) simp
  then have idx: "[j..<j + length (s # ss)] = j # [Suc j..<Suc j + length ss]"
    by simp
  show ?case
    unfolding idx using s1 s2 v2 by (simp add: seq_Inr)
qed

lemma copy_headers_view:
  assumes rd: "header_end (mapping f) \<le> length (bytes (mapping f))"
    and a: "0 < unat (FileAlignment (nt (mapping f)))"
    and wr: "ROUND_UP (header_end (mapping f)) (unat (FileAlignment (nt (mapping f)))) \<le> length (bytes img)"
  shows "\<exists>st'. copy_headers f \<lparr> out = img, dst = 0, chunks = [] \<rparr> = Inr st' \<and>
     view st' = (ROUND_UP (header_end (mapping f)) (unat (FileAlignment (nt (mapping f)))),
                 sections (mapping f),
                 (nt (mapping f))\<lparr> SizeOfHeaders :=
                    of_nat (ROUND_UP (header_end (mapping f)) (unat (FileAlignment (nt (mapping f))))) \<rparr>,
                 length (bytes img)) \<and>
     e_magic (out st') = e_magic (mapping f) \<and> e_lfanew (out st') = e_lfanew (mapping f)"
proof -
  let ?m = "mapping f"
  let ?a = "unat (FileAlignment (nt ?m))"
  let ?e = "unat (e_lfanew ?m)"
  let ?n = "OPTIONAL_HEADER_OFFSET + unat (SizeOfOptionalHeader (nt ?m))"
  let ?t = "length (sections ?m) * IMAGE_SIZEOF_SECTION_HEADER"
  let ?L = "length (bytes img)"
  have he: "header_end ?m = ?e + ?n + ?t" by (simp add: header_end_def)
  have ge: "header_end ?m \<le> ROUND_UP (header_end ?m) ?a" using a by (rule ROUND_UP_ge)
  let ?st0 = "\<lparr> out = img, dst = 0, chunks = [] \<rparr>"
  have "?e = 0 \<or> 0 + ?e \<le> length (bytes ?m)" "?e = 0 \<or> dst ?st0 + ?e \<le> length (bytes (out ?st0))"
    using rd wr ge he by simp_all
  from COPY_CHUNK_view[OF this, of CopyingDOSHeader] obtain st1 where
    s1: "COPY_CHUNK CopyingDOSHeader f 0 ?e ?st0 = Inr st1"
    and v1: "view st1 = (?e, sections img, nt img, ?L)"
    by auto
  let ?st1 = "st1\<lparr> out := (out st1)\<lparr> e_magic := e_magic ?m, e_lfanew := e_lfanew ?m \<rparr> \<rparr>"
  have "?n = 0 \<or> ?e + ?n \<le> length (bytes ?m)" "?n = 0 \<or> dst ?st1 + ?n \<le> length (bytes (out ?st1))"
    using rd wr ge he v1 by (simp_all add: view_def)
  from COPY_CHUNK_view[OF this, of CopyingNTHeader] obtain st2 where
    s2: "COPY_CHUNK CopyingNTHeader f ?e ?n ?st1 = Inr st2"
    and v2: "view st2 = (?e + ?n, sections img, nt img, ?L)"
    and m2: "e_magic (out st2) = e_magic ?m \<and> e_lfanew (out st2) = e_lfanew ?m"
    using v1 unfolding COPY_CHUNK_def put_def
    by (auto simp: view_def split: option.splits)
  let ?st2 = "st2\<lparr> out := (out st2)\<lparr> nt := nt ?m \<rparr> \<rparr>"
  have "?t = 0 \<or> (?e + ?n) + ?t \<le> length (bytes ?m)" "?t = 0 \<or> dst ?st2 + ?t \<le> length (bytes (out ?st2))"
    using rd wr ge he v2 by (simp_all add: view_def)
  from COPY_CHUNK_view[OF this, of CopyingSectionTable] obtain st3 where
    s3: "COPY_CHUNK CopyingSectionTable f (?e + ?n) ?t ?st2 = Inr st3"
    and v3: "view st3 = (?e + ?n + ?t, sections img, nt ?m, ?L)"
    and m3: "e_magic (out st3) = e_magic ?m \<and> e_lfanew (out st3) = e_lfanew ?m"
    using v2 m2 unfolding COPY_CHUNK_def put_def
    by (auto simp: view_def split: option.splits)
  let ?st3 = "st3\<lparr> out := (out st3)\<lparr> sections := sections ?m \<rparr> \<rparr>"
  have "0 < dst_align ?st3" "ROUND_UP (dst ?st3) (dst_align ?st3) \<le> length (bytes (out ?st3))"
    using a wr v3 he by (simp_all add: view_def dst_align_def)
  from ROUND_UP_DST_AND_ZERO_view[OF this] obtain st4 where
    s4: "ROUND_UP_DST_AND_ZERO ?st3 = Inr st4"
    and v4: "view st4 = (ROUND_UP (header_end ?m) ?a, sections ?m, nt ?m, ?L)"
    and m4: "e_magic (out st4) = e_magic ?m \<and> e_lfanew (out st4) = e_lfanew ?m"
    using v3 m3 he unfolding ROUND_UP_DST_AND_ZERO_def
    by (auto simp: view_def dst_align_def Let_def split: option.splits if_splits)
  show ?thesis
    unfolding copy_headers_def Let_def
    using v4 m4
    by (simp add: s1 s2 s3 s4 seq_Inr view_def)
qed

lemma copy_remainder_view:
  assumes v: "view st = (c, secs, h, L)"
    and raw: "\<exists>s\<in>set (sections (mapping f)). PointerToRawData s \<noteq> 0"
    and rd: "remainder_size f = 0 \<or>
             unat (remainder_from f) + remainder_size f \<le> length (bytes (mapping f))"
    and wr: "remainder_size f = 0 \<or> c + remainder_size f \<le> L"
  shows "\<exists>st'. copy_remainder f st = Inr st' \<and> view st' = (c + remainder_size f, secs, h, L)"
proof -
  have wr': "remainder_size f = 0 \<or> dst st + remainder_size f \<le> length (bytes (out st))"
    using wr v by (simp add: view_def)
  from COPY_CHUNK_view[OF rd wr', of CopyingRemainder] v
  show ?thesis
    unfolding copy_remainder_def Let_def back_to_raw_rev[OF raw] seq_Inr
      remainder_size_def[symmetric] remainder_from_def[symmetric]
    by (simp add: view_def)
qed

lemma copy_image_view:
  assumes static: "bss_section_static info = None"
    and a: "0 < unat (FileAlignment (nt (mapping f)))"
    and hd: "header_end (mapping f) \<le> length (bytes (mapping f))"
    and rd: "\<forall>s\<in>set (sections (mapping f)). SizeOfRawData s = 0 \<or>
       unat (PointerToRawData s) + unat (SizeOfRawData s) \<le> length (bytes (mapping f))"
    and dat: "\<forall>i. data_section info = Some i \<longrightarrow> i < length (sections (mapping f)) \<longrightarrow>
       data_size info = 0 \<or>
       data_end proc info (sections (mapping f) ! i)
         \<le> unat (SizeOfRawData (sections (mapping f) ! i))"
    and raw: "\<exists>s\<in>set (sections (mapping f)). PointerToRawData s \<noteq> 0"
    and rem: "remainder_size f = 0 \<or>
             unat (remainder_from f) + remainder_size f \<le> length (bytes (mapping f))"
    and wr: "layout_end (unat (FileAlignment (nt (mapping f)))) proc info 0
               (ROUND_UP (header_end (mapping f)) (unat (FileAlignment (nt (mapping f)))))
               (sections (mapping f)) + remainder_size f
             \<le> length (bytes (mapping p_outfile))"
  shows "\<exists>st. copy_image proc info f p_outfile = Inr st \<and>
     view st =
       (layout_end (unat (FileAlignment (nt (mapping f)))) proc info 0
               (ROUND_UP (header_end (mapping f)) (unat (FileAlignment (nt (mapping f)))))
               (sections (mapping f)) + remainder_size f,
        layout (unat (FileAlignment (nt (mapping f)))) proc info 0
               (ROUND_UP (header_end (mapping f)) (unat (FileAlignment (nt (mapping f)))))
               (sections (mapping f)),
        (nt (mapping f))\<lparr> SizeOfHeaders :=
           of_nat (ROUND_UP (header_end (mapping f)) (unat (FileAlignment (nt (mapping f))))) \<rparr>,
        length (bytes (mapping p_outfile)))"
proof -
  let ?a = "unat (FileAlignment (nt (mapping f)))"
  let ?start = "ROUND_UP (header_end (mapping f)) ?a"
  let ?secs = "sections (mapping f)"
  let ?hdr = "(nt (mapping f))\<lparr> SizeOfHeaders := of_nat ?start \<rparr>"
  let ?L = "length (bytes (mapping p_outfile))"
  let ?e = "layout_end ?a proc info 0 ?start ?secs"
  have ah: "0 < unat (FileAlignment ?hdr)" using a by simp
  have fa: "unat (FileAlignment ?hdr) = ?a" by simp
  have "?start \<le> ?e" using a by (rule layout_end_ge)
  with wr have w0: "?start \<le> ?L" by simp
  from copy_headers_view[OF hd a w0] obtain st1 where
    s1: "copy_headers f \<lparr> out = mapping p_outfile, dst = 0, chunks = [] \<rparr> = Inr st1"
    and v1: "view st1 = (?start, [] @ ?secs, ?hdr, ?L)"
    by auto
  have p: "?secs = [] @ ?secs" "length ([] :: section_header list) = 0" by simp_all
  have dat': "\<forall>i. data_section info = Some i \<longrightarrow> 0 \<le> i \<longrightarrow> i < 0 + length ?secs \<longrightarrow>
       data_size info = 0 \<or>
       data_end proc info (?secs ! (i - 0)) \<le> unat (SizeOfRawData (?secs ! (i - 0)))"
    using dat by simp
  have w1: "layout_end (unat (FileAlignment ?hdr)) proc info 0 ?start ?secs \<le> ?L"
    unfolding fa using wr by simp
  from copy_sections_view[OF static ah v1 p(1) p(2) p(2) rd dat' w1]
  obtain st2 where
    s2: "copy_sections proc info f [0..<length ?secs] st1 = Inr st2"
    and v2: "view st2 = (?e, layout ?a proc info 0 ?start ?secs, ?hdr, ?L)"
    unfolding fa by auto
  have w2: "remainder_size f = 0 \<or> ?e + remainder_size f \<le> ?L" using wr by simp
  from copy_remainder_view[OF v2 raw rem w2] obtain st3 where
    "copy_remainder f st2 = Inr st3"
    and "view st3 = (?e + remainder_size f, layout ?a proc info 0 ?start ?secs, ?hdr, ?L)"
    by auto
  then show ?thesis
    unfolding copy_image_def by (simp add: s1 s2 seq_Inr)
qed












subsection \<open>The growth of the bss section\<close>

lemma rva_to_section_from_Some:
  "rva_to_section_from j rva ss = Some i \<Longrightarrow>
     j \<le> i \<and> i - j < length ss \<and> rva_in_section rva (ss ! (i - j))"
proof (induction ss arbitrary: j)
  case Nil
  then show ?case by simp
next
  case (Cons s ss)
  show ?case
  proof (cases "rva_in_section rva s")
    case True
    with Cons.prems show ?thesis by simp
  next
    case False
    with Cons.prems have "rva_to_section_from (Suc j) rva ss = Some i" by simp
    from Cons.IH[OF this] show ?thesis
      by (auto simp: Suc_diff_le)
  qed
qed



lemma get_section_info_merged:
  assumes g: "get_section_info alpha proc f = Inr info"
    and static: "bss_section_static info = None"
  shows "\<exists>k. bss_section info = Some k \<and>
     rva_to_section (PTR_TO_RVA proc (my_begbss proc)) (sections (mapping f)) = Some k \<and>
     rva_to_section (PTR_TO_RVA proc (my_endbss proc)) (sections (mapping f)) = Some k \<and>
     rva_to_section (PTR_TO_RVA proc (my_begbss_static proc)) (sections (mapping f)) = Some k \<and>
     rva_to_section (PTR_TO_RVA proc (my_endbss_static proc)) (sections (mapping f)) = Some k \<and>
     bss_start info = min (my_begbss proc) (my_begbss_static proc) \<and>
     bss_size info = max (my_endbss proc) (my_endbss_static proc)
                       - min (my_begbss proc) (my_begbss_static proc) \<and>
     extra_bss_size info =
       max (ROUND_UP_W (RVA_TO_SECTION_OFFSET (PTR_TO_RVA proc (my_endbss proc))
                          (sections (mapping f) ! k)) (FileAlignment (nt (mapping f)))
              - SizeOfRawData (sections (mapping f) ! k))
           (ROUND_UP_W (RVA_TO_SECTION_OFFSET (PTR_TO_RVA proc (my_endbss_static proc))
                          (sections (mapping f) ! k)) (FileAlignment (nt (mapping f)))
              - SizeOfRawData (sections (mapping f) ! k)) \<and>
     extra_bss_size_static info = 0"
  using g static unfolding get_section_info_def locate_bss_def Let_def seq_def
  by (auto split: if_splits sum.splits option.splits prod.splits)









subsection \<open>The example images\<close>

lemmas ex_simps = ex_in_def ex_out_def ex_image_def ex_nt_def ex_sections_def ex_info_def
  ex_proc_def mk_section_def blank_image_def header_end_def OPTIONAL_HEADER_OFFSET_def
  IMAGE_SIZEOF_SECTION_HEADER_def ROUND_UP_def bss_end_def data_end_def
  RVA_TO_SECTION_OFFSET_def PTR_TO_RVA_def ex_gap_in_def ex_gap_out_def

lemma ex_get_section_info: "get_section_info False ex_proc ex_in = Inr ex_info"
  by (simp add: get_section_info_def ex_simps Let_def locate_data_def locate_bss_def seq_def
      find_section_def bytes_of_def section_bytes_def name_field_def le32_def le16_def
      IMAGE_SIZEOF_SHORT_NAME_def rva_to_section_def rva_in_section_def bss_overlap_def
      IMAGE_DOS_SIGNATURE_def IMAGE_NT_SIGNATURE_def ROUND_UP_W_def)

lemma ex_two_get_section_info: "get_section_info False ex_two_proc ex_in = Inr ex_two_info"
  by (simp add: get_section_info_def ex_two_proc_def ex_two_info_def ex_simps Let_def
      locate_data_def locate_bss_def seq_def
      find_section_def bytes_of_def section_bytes_def name_field_def le32_def le16_def
      IMAGE_SIZEOF_SHORT_NAME_def rva_to_section_def rva_in_section_def bss_overlap_def
      IMAGE_DOS_SIGNATURE_def IMAGE_NT_SIGNATURE_def ROUND_UP_W_def)

theorem copy_section_bss_extent_witness:
  "get_section_info False ex_two_proc ex_in = Inr ex_two_info \<and>
   bss_section ex_two_info = Some 1 \<and> bss_section_static ex_two_info = Some 1 \<and>
   dst ex_copier = 176 \<and> SizeOfRawData (sections (out ex_copier) ! 1) = 0 \<and>
   bss_end ex_two_proc ex_two_info 176 (sections (out ex_copier) ! 1) = 188 \<and>
   bss_end_static ex_two_proc ex_two_info 176 (sections (out ex_copier) ! 1) = 208 \<and>
   (\<exists>st'. copy_section ex_two_proc ex_two_info ex_in 1 ex_copier = Inr st' \<and>
      dst st' = 208 \<and> SizeOfRawData (sections (out st') ! 1) = 32 \<and>
      PointerToRawData (sections (out st') ! 1) = 176 \<and>
      Characteristics (sections (out st') ! 1) = 0x40)"
proof -
  have g: "grown_end (dst_align ex_copier) ex_two_proc ex_two_info 1 (dst ex_copier)
             (sections (out ex_copier) ! 1) = 208"
    by (simp add: grown_end_def bss_end_static_def ex_copier_def ex_two_proc_def ex_two_info_def
        dst_align_def ex_simps)
  have h: "Some 1 = bss_section ex_two_info \<or> Some 1 = bss_section_static ex_two_info"
    "1 < length (sections (out ex_copier))"
    "0 < dst_align ex_copier"
    "sections (mapping ex_in) ! 1 = sections (out ex_copier) ! 1"
    "SizeOfRawData (sections (out ex_copier) ! 1) = 0 \<or>
       unat (PointerToRawData (sections (out ex_copier) ! 1))
         + unat (SizeOfRawData (sections (out ex_copier) ! 1))
       \<le> length (bytes (mapping ex_in))"
    "ROUND_UP (grown_end (dst_align ex_copier) ex_two_proc ex_two_info 1 (dst ex_copier)
             (sections (out ex_copier) ! 1)) (dst_align ex_copier)
       \<le> length (bytes (out ex_copier))"
    "length (bytes (out ex_copier)) < 2 ^ 32"
    unfolding g
    by (simp_all add: ex_copier_def ex_two_info_def dst_align_def ex_simps)
  have dat: "Some 1 = data_section ex_two_info \<Longrightarrow>
       data_size ex_two_info = 0 \<or>
       data_end ex_two_proc ex_two_info (sections (out ex_copier) ! 1)
         \<le> unat (SizeOfRawData (sections (out ex_copier) ! 1))"
    by (simp add: ex_two_info_def)
  have i: "bss_section ex_two_info = Some 1" "bss_section_static ex_two_info = Some 1"
    "dst ex_copier = 176" "SizeOfRawData (sections (out ex_copier) ! 1) = 0"
    "bss_end ex_two_proc ex_two_info 176 (sections (out ex_copier) ! 1) = 188"
    "bss_end_static ex_two_proc ex_two_info 176 (sections (out ex_copier) ! 1) = 208"
    by (simp_all add: bss_end_static_def ex_copier_def ex_two_proc_def ex_two_info_def ex_simps)
  have c: "(Characteristics (sections (out ex_copier) ! 1)
             AND NOT IMAGE_SCN_CNT_UNINITIALIZED_DATA) OR IMAGE_SCN_CNT_INITIALIZED_DATA = 0x40"
    by (simp add: ex_copier_def ex_simps
        IMAGE_SCN_CNT_UNINITIALIZED_DATA_def IMAGE_SCN_CNT_INITIALIZED_DATA_def)
  from copy_section_bss_extent[OF h(1-5) dat h(6,7)] obtain st' where
    r: "copy_section ex_two_proc ex_two_info ex_in 1 ex_copier = Inr st'"
    and d: "dst ex_copier + unat (SizeOfRawData (sections (out ex_copier) ! 1)) < 208
              \<longrightarrow> dst st' = 208"
    and z: "SizeOfRawData (sections (out st') ! 1) = of_nat (208 - dst ex_copier)"
    and p: "PointerToRawData (sections (out st') ! 1) = of_nat (dst ex_copier)"
    and k: "Characteristics (sections (out st') ! 1) = 0x40"
    unfolding g c by blast
  from d have d': "dst st' = 208" unfolding i by simp
  from z have z': "SizeOfRawData (sections (out st') ! 1) = 32" unfolding i by simp
  from p have p': "PointerToRawData (sections (out st') ! 1) = 176" unfolding i by simp
  show ?thesis
    by (intro conjI exI[of _ st']) (rule ex_two_get_section_info i r d' z' p' k)+
qed




subsection \<open>The analysis\<close>

lemma strcmp_eq_Some: "length n < length m \<Longrightarrow> strcmp_eq m n \<noteq> None"
proof (induction m n rule: strcmp_eq.induct)
  case (1 uu)
  then show ?case by simp
next
  case (2 m ms)
  then show ?case by simp
next
  case (3 m ms c cs)
  then show ?case by auto
qed

lemma length_section_bytes: "length (section_bytes s) = 40"
  by (simp add: section_bytes_def name_field_def le32_def le16_def IMAGE_SIZEOF_SHORT_NAME_def)

lemma find_section_from_defined:
  "length n < 40 \<Longrightarrow> \<exists>r. find_section_from i n secs = Inr r"
proof (induction secs arbitrary: i)
  case Nil
  then show ?case by simp
next
  case (Cons s ss)
  have "length n < length (concat (map section_bytes (s # ss)))"
    using Cons.prems by (simp add: length_section_bytes)
  then have "strcmp_eq (concat (map section_bytes (s # ss))) n \<noteq> None"
    by (rule strcmp_eq_Some)
  then obtain b where b: "strcmp_eq (concat (map section_bytes (s # ss))) n = Some b" by auto
  show ?case
  proof (cases b)
    case True
    with b show ?thesis by simp
  next
    case False
    with b Cons.IH[OF Cons.prems, of "Suc i"] show ?thesis by simp
  qed
qed

lemma find_EMDATA_defined: "\<exists>r. find_section ''EMDATA'' secs = Inr r"
  unfolding find_section_def by (rule find_section_from_defined) (simp add: bytes_of_def)

lemma same_section_in_one:
  assumes "rva_to_section b secs = rva_to_section e secs" and "rva_to_section b secs \<noteq> None"
  shows "in_one_section secs b e"
proof -
  from assms obtain i where b: "rva_to_section b secs = Some i" and e: "rva_to_section e secs = Some i"
    by auto
  from rva_to_section_from_Some[OF b[unfolded rva_to_section_def]]
       rva_to_section_from_Some[OF e[unfolded rva_to_section_def]]
  have "i < length secs" "rva_in_section b (secs ! i)" "rva_in_section e (secs ! i)" by simp_all
  then show ?thesis
    unfolding in_one_section_def list_ex_iff by (meson nth_mem)
qed

lemma locate_bss_cases:
  assumes "rva_to_section (PTR_TO_RVA proc beg) (sections img) \<noteq> None"
  shows "(\<not> in_one_section (sections img) (PTR_TO_RVA proc beg) (PTR_TO_RVA proc fin) \<longrightarrow>
            locate_bss diag proc img beg fin = Inl (Exit1 diag))
       \<and> (locate_bss diag proc img beg fin = Inl (Exit1 diag) \<or>
            (\<exists>r. locate_bss diag proc img beg fin = Inr r))"
proof (cases "rva_to_section (PTR_TO_RVA proc beg) (sections img)
              = rva_to_section (PTR_TO_RVA proc fin) (sections img)")
  case True
  from same_section_in_one[OF True assms] True assms show ?thesis
    by (auto simp: locate_bss_def Let_def)
next
  case False
  then show ?thesis by (simp add: locate_bss_def Let_def)
qed

lemma locate_data_cases:
  assumes "rva_to_section (PTR_TO_RVA proc (my_begdata proc)) (sections img) \<noteq> None"
  shows "(find_section ''EMDATA'' (sections img) = Inr None \<and>
          \<not> in_one_section (sections img) (PTR_TO_RVA proc (my_begdata proc))
               (PTR_TO_RVA proc (my_edata proc)) \<longrightarrow>
            locate_data proc img = Inl (Exit1 InitializedDataNotInSingleSection))
       \<and> (locate_data proc img = Inl (Exit1 InitializedDataNotInSingleSection) \<or>
            (\<exists>r. locate_data proc img = Inr r))"
proof -
  from find_EMDATA_defined obtain r where r: "find_section ''EMDATA'' (sections img) = Inr r"
    by blast
  show ?thesis
  proof (cases r)
    case (Some i)
    with r show ?thesis by (simp add: locate_data_def seq_def)
  next
    case None
    show ?thesis
    proof (cases "rva_to_section (PTR_TO_RVA proc (my_begdata proc)) (sections img)
              = rva_to_section (PTR_TO_RVA proc (my_edata proc)) (sections img)")
      case True
      from same_section_in_one[OF True assms] True r None show ?thesis
        by (simp add: locate_data_def seq_def Let_def)
    next
      case False
      with r None show ?thesis by (simp add: locate_data_def seq_def Let_def)
    qed
  qed
qed

lemma get_section_info_spans:
  assumes m: "symbols_mapped proc (sections (mapping f))"
    and v: "spans_sections proc (sections (mapping f))"
  shows "\<exists>d. get_section_info alpha proc f = Inl (Exit1 d)"
proof -
  let ?img = "mapping f"
  let ?B = "locate_bss UninitializedDataNotInSingleSection proc ?img (my_begbss proc) (my_endbss proc)"
  let ?S = "locate_bss UninitializedStaticDataNotInSingleSection proc ?img
              (my_begbss_static proc) (my_endbss_static proc)"
  from m have md: "rva_to_section (PTR_TO_RVA proc (my_begdata proc)) (sections ?img) \<noteq> None"
    and mb: "rva_to_section (PTR_TO_RVA proc (my_begbss proc)) (sections ?img) \<noteq> None"
    and ms: "rva_to_section (PTR_TO_RVA proc (my_begbss_static proc)) (sections ?img) \<noteq> None"
    by (simp_all add: symbols_mapped_def)
  note D = locate_data_cases[OF md]
  note B = locate_bss_cases[OF mb, of "my_endbss proc" UninitializedDataNotInSingleSection]
  note S = locate_bss_cases[OF ms, of "my_endbss_static proc" UninitializedStaticDataNotInSingleSection]
  consider (hdr) "e_magic ?img \<noteq> IMAGE_DOS_SIGNATURE \<or> file_base f + e_lfanew ?img = 0
                   \<or> Signature (nt ?img) \<noteq> IMAGE_NT_SIGNATURE"
    | (d) "locate_data proc ?img = Inl (Exit1 InitializedDataNotInSingleSection)"
    | (b) r where "locate_data proc ?img = Inr r"
          "?B = Inl (Exit1 UninitializedDataNotInSingleSection)"
    | (s) r r' where "locate_data proc ?img = Inr r" "?B = Inr r'"
          "?S = Inl (Exit1 UninitializedStaticDataNotInSingleSection)"
    | (ok) r r' r'' where "locate_data proc ?img = Inr r" "?B = Inr r'" "?S = Inr r''"
    using D B S by blast
  then show ?thesis
  proof cases
    case hdr
    then show ?thesis by (auto simp: get_section_info_def Let_def)
  next
    case d
    then show ?thesis by (auto simp: get_section_info_def Let_def seq_def)
  next
    case b
    then show ?thesis by (auto simp: get_section_info_def Let_def seq_def split: prod.splits)
  next
    case s
    then show ?thesis by (auto simp: get_section_info_def Let_def seq_def split: prod.splits)
  next
    case ok
    with D B S v have False by (auto simp: spans_sections_def)
    then show ?thesis ..
  qed
qed

text \<open>
  C5.  When \<open>unexec\<close> has computed its file names and opened the input, the
  boundary symbols belong to the image, and a tracked region does not lie in one
  section, then \<open>get_section_info\<close> ends the program with \<open>exit (1)\<close> after a
  diagnostic, and \<open>unexec\<close> leaves the file system as it was: no output file has
  been deleted, created or written.
\<close>

theorem unexec_region_spans_sections:
  assumes names: "unexec_file_names os new_name = Inr (in_filename, out_filename)"
    and opened: "open_input_file os fs in_filename = Some in_file"
    and mapped: "symbols_mapped proc (sections (mapping in_file))"
    and spans: "spans_sections proc (sections (mapping in_file))"
  shows "\<exists>d. get_section_info alpha proc in_file = Inl (Exit1 d) \<and>
             unexec alpha os proc fs new_name old_name = (Inl (Exit1 d), fs)"
proof -
  from get_section_info_spans[OF mapped spans] obtain d where
    "get_section_info alpha proc in_file = Inl (Exit1 d)" by blast
  then show ?thesis
    by (simp add: unexec_def names opened)
qed

lemma ex_file_names:
  "unexec_file_names ex_os ''D:/build/emacs''
     = Inr (''C:/emacs/bin/temacs.exe'', ''C:/emacs/bin/emacs.exe'')"
  by (simp add: unexec_file_names_def ex_os_def strrchr_def MAX_PATH_def Let_def)

lemma ex_open_input:
  "open_input_file ex_os ex_fs ''C:/emacs/bin/temacs.exe'' = Some ex_in"
  by (simp add: open_input_file_def lookup_def ex_fs_def ex_os_def ex_in_def ex_image_def)

theorem unexec_region_spans_sections_witness:
  "unexec_file_names ex_os ''D:/build/emacs''
     = Inr (''C:/emacs/bin/temacs.exe'', ''C:/emacs/bin/emacs.exe'') \<and>
   open_input_file ex_os ex_fs ''C:/emacs/bin/temacs.exe'' = Some ex_in \<and>
   symbols_mapped ex_span_proc (sections (mapping ex_in)) \<and>
   spans_sections ex_span_proc (sections (mapping ex_in)) \<and>
   unexec False ex_os ex_span_proc ex_fs ''D:/build/emacs'' ''temacs''
     = (Inl (Exit1 UninitializedDataNotInSingleSection), ex_fs)"
proof -
  have m: "symbols_mapped ex_span_proc (sections (mapping ex_in))"
    by (simp add: symbols_mapped_def ex_span_proc_def ex_simps rva_to_section_def
        rva_in_section_def)
  have s: "spans_sections ex_span_proc (sections (mapping ex_in))"
    by (simp add: spans_sections_def in_one_section_def ex_span_proc_def ex_simps
        rva_in_section_def)
  have g: "get_section_info False ex_span_proc ex_in
             = Inl (Exit1 UninitializedDataNotInSingleSection)"
    by (simp add: get_section_info_def ex_span_proc_def ex_simps Let_def locate_data_def
        locate_bss_def seq_def find_section_def bytes_of_def section_bytes_def name_field_def
        le32_def le16_def IMAGE_SIZEOF_SHORT_NAME_def rva_to_section_def rva_in_section_def
        IMAGE_DOS_SIGNATURE_def IMAGE_NT_SIGNATURE_def)
  from unexec_region_spans_sections[OF ex_file_names ex_open_input m s, of False "''temacs''"]
  have "unexec False ex_os ex_span_proc ex_fs ''D:/build/emacs'' ''temacs''
     = (Inl (Exit1 UninitializedDataNotInSingleSection), ex_fs)"
    unfolding g by simp
  then show ?thesis
    by (intro conjI) (rule ex_file_names ex_open_input m s)+
qed

subsection \<open>\<open>open_output_file\<close>\<close>

lemma lookup_filter:
  "map_of (filter (\<lambda>e. fst e \<noteq> n) es) p = (if p = n then None else map_of es p)"
  by (induction es) auto

lemma lookup_fresh:
  "entries_ok fs \<Longrightarrow> lookup fs p \<noteq> Some (length (files fs))"
proof
  assume ok: "entries_ok fs" and "lookup fs p = Some (length (files fs))"
  then have "(p, length (files fs)) \<in> set (entries fs)"
    by (simp add: lookup_def map_of_SomeD)
  with ok show False by (auto simp: entries_ok_def list_all_iff)
qed

text \<open>
  What the deletion achieves when it succeeds, or when no file has the name:
  \<open>open_output_file\<close> then hands out a file that did not exist before.  No name
  referred to it, every other name refers to what it referred to, and the files
  that existed keep their contents, also after the dump has been written and the
  file closed.
\<close>

lemma open_output_file_new_object:
  assumes opened: "open_output_file os fs filename sz = (Some (p_file, f), fs')"
    and deleted: "DeleteFileA_ok os \<or> lookup fs filename = None"
    and ok: "entries_ok fs"
  shows "f = length (files fs) \<and> lookup fs' filename = Some f \<and>
     (\<forall>p. lookup fs p \<noteq> Some f) \<and>
     (\<forall>p. p \<noteq> filename \<longrightarrow> lookup fs' p = lookup fs p) \<and>
     (\<forall>i<length (files fs). files fs' ! i = files fs ! i) \<and>
     (\<forall>q. \<forall>i<length (files fs). files (close_file_data fs' f q) ! i = files fs ! i)"
proof -
  let ?fs1 = "DeleteFileA os fs filename"
  have gone: "lookup ?fs1 filename = None"
    using deleted by (auto simp: DeleteFileA_def lookup_def lookup_filter)
  have other: "\<And>p. p \<noteq> filename \<Longrightarrow> lookup ?fs1 p = lookup fs p"
    by (simp add: DeleteFileA_def lookup_def lookup_filter)
  have files1: "files ?fs1 = files fs" by (simp add: DeleteFileA_def)
  have c: "CreateFileA_CREATE_ALWAYS ?fs1 filename =
     (length (files fs),
      ?fs1\<lparr> entries := (filename, length (files fs)) # entries ?fs1,
             files := files fs @ [blank_image 0] \<rparr>)"
    by (simp add: CreateFileA_CREATE_ALWAYS_def gone files1)
  from opened have f: "f = length (files fs)"
    and fs': "fs' = ?fs1\<lparr> entries := (filename, length (files fs)) # entries ?fs1,
                         files := (files fs @ [blank_image 0])[length (files fs) := blank_image (unat sz)] \<rparr>"
    by (auto simp: open_output_file_def Let_def c split: if_splits)
  have fresh: "\<forall>p. lookup fs p \<noteq> Some f" unfolding f using ok by (simp add: lookup_fresh)
  show ?thesis
    using f fresh other
    by (auto simp: fs' lookup_def close_file_data_def nth_append nth_list_update)
qed

lemma ex_open_output:
  "open_output_file ex_os ex_fs ''C:/emacs/bin/emacs.exe'' 232 = (Some (ex_out, 2), ex_fs_opened)"
  by (simp add: open_output_file_def DeleteFileA_def CreateFileA_CREATE_ALWAYS_def lookup_def
      ex_os_def ex_fs_def ex_out_def ex_fs_opened_def Let_def)

lemma ex_open_output_new_object:
  "open_output_file ex_os ex_fs ''C:/emacs/bin/emacs.exe'' 232 = (Some (ex_out, 2), ex_fs_opened) \<and>
   DeleteFileA_ok ex_os \<and> entries_ok ex_fs \<and>
   lookup ex_fs ''C:/emacs/bin/emacs.exe'' = Some 1 \<and>
   lookup ex_fs_opened ''C:/emacs/bin/emacs.exe'' = Some 2 \<and>
   lookup ex_fs_opened ''C:/emacs/bin/emacs-27.1.exe'' = Some 1 \<and>
   files ex_fs_opened ! 1 = files ex_fs ! 1"
proof -
  have d: "DeleteFileA_ok ex_os \<or> lookup ex_fs ''C:/emacs/bin/emacs.exe'' = None"
    "DeleteFileA_ok ex_os"
    by (simp_all add: ex_os_def)
  have ok: "entries_ok ex_fs" by (simp add: entries_ok_def ex_fs_def)
  have l: "lookup ex_fs ''C:/emacs/bin/emacs.exe'' = Some 1"
    "lookup ex_fs ''C:/emacs/bin/emacs-27.1.exe'' = Some 1" "1 < length (files ex_fs)"
    by (simp_all add: lookup_def ex_fs_def)
  from open_output_file_new_object[OF ex_open_output d(1) ok] l
  have "lookup ex_fs_opened ''C:/emacs/bin/emacs.exe'' = Some 2"
    "lookup ex_fs_opened ''C:/emacs/bin/emacs-27.1.exe'' = Some 1"
    "files ex_fs_opened ! 1 = files ex_fs ! 1"
    by auto
  then show ?thesis
    by (intro conjI) (rule ex_open_output d(2) ok l(1))+
qed

text \<open>
  C10.  The output is not always a newly created file: \<open>open_output_file\<close> does
  not look at the result of \<open>DeleteFileA\<close>, the one call of the function whose
  result is not checked.  When the deletion fails and \<open>CreateFileA\<close> succeeds,
  \<open>CREATE_ALWAYS\<close> truncates the file the name refers to, the dump is written
  into it, and the hard link \<open>emacs-27.1.exe\<close> to it sees the new contents: what
  the comment above the call says the deletion is there to prevent.
\<close>

theorem open_output_file_overwrites_in_place:
  "lookup ex_fs ''C:/emacs/bin/emacs.exe'' = Some 1 \<and>
   lookup ex_fs ''C:/emacs/bin/emacs-27.1.exe'' = Some 1 \<and>
   files ex_fs ! 1 = blank_image 8 \<and>
   fst (open_output_file ex_os_no_delete ex_fs ''C:/emacs/bin/emacs.exe'' 232) = Some (ex_out, 1) \<and>
   lookup (snd (open_output_file ex_os_no_delete ex_fs ''C:/emacs/bin/emacs.exe'' 232))
     ''C:/emacs/bin/emacs-27.1.exe'' = Some 1 \<and>
   files (snd (open_output_file ex_os_no_delete ex_fs ''C:/emacs/bin/emacs.exe'' 232)) ! 1
     = blank_image 232 \<and>
   blank_image 232 \<noteq> blank_image 8"
  by (simp add: open_output_file_def DeleteFileA_def CreateFileA_CREATE_ALWAYS_def lookup_def
      ex_os_no_delete_def ex_os_def ex_fs_def ex_out_def Let_def)
    (simp add: blank_image_def)

subsection \<open>Patching the offsets\<close>

lemma relocate_walk_defined:
  "length dest = length src \<Longrightarrow> src \<noteq> [] \<Longrightarrow> \<exists>w. relocate_walk offset src dest = Inr w"
proof (induction src arbitrary: dest)
  case Nil
  then show ?case by simp
next
  case (Cons s ss)
  then obtain d ds where dest: "dest = d # ds" and len: "length ds = length ss"
    by (cases dest) auto
  show ?case
  proof (cases "ss = []")
    case True
    then show ?thesis by (simp add: dest)
  next
    case False
    from Cons.IH[OF len False] show ?thesis by (simp add: dest)
  qed
qed

lemma relocate_offset_defined:
  assumes "length dest = length src"
    and "\<exists>s\<in>set src. PointerToRawData s \<noteq> 0" and "\<exists>d\<in>set dest. PointerToRawData d \<noteq> 0"
  shows "\<exists>v. relocate_offset offset src dest = Inr v"
proof -
  from assms(2) have "src \<noteq> []" by auto
  from relocate_walk_defined[OF assms(1) this] obtain w where
    w: "relocate_walk offset src dest = Inr w" by blast
  show ?thesis
    by (cases w) (simp_all add: relocate_offset_def w back_to_raw_rev[OF assms(2)]
        back_to_raw_rev[OF assms(3)])
qed

lemma map_update_same:
  "(\<And>x. f (g x) = f x) \<Longrightarrow> map f (xs[i := g (xs ! i)]) = map f xs"
  by (induction xs arbitrary: i) (auto split: nat.splits)

lemma add_data_size_frame:
  "(add_data_size d h)\<lparr> SizeOfInitializedData := 0, SizeOfUninitializedData := 0 \<rparr>
     = h\<lparr> SizeOfInitializedData := 0, SizeOfUninitializedData := 0 \<rparr>"
  by (simp add: add_data_size_def)

lemma patch_sections_frame:
  "patch_sections p js st = Inr st' \<Longrightarrow>
     dst st' = dst st \<and> chunks st' = chunks st \<and> bytes (out st') = bytes (out st) \<and>
     e_magic (out st') = e_magic (out st) \<and> e_lfanew (out st') = e_lfanew (out st) \<and>
     map (\<lambda>s. s\<lparr> PointerToLinenumbers := 0 \<rparr>) (sections (out st'))
       = map (\<lambda>s. s\<lparr> PointerToLinenumbers := 0 \<rparr>) (sections (out st)) \<and>
     (nt (out st'))\<lparr> SizeOfInitializedData := 0, SizeOfUninitializedData := 0 \<rparr>
       = (nt (out st))\<lparr> SizeOfInitializedData := 0, SizeOfUninitializedData := 0 \<rparr>"
proof (induction js arbitrary: st)
  case Nil
  then show ?case by simp
next
  case (Cons i js)
  let ?st1 = "st\<lparr> out := (out st)\<lparr> nt := add_data_size (dst_section st i) (nt (out st)) \<rparr> \<rparr>"
  from Cons.prems obtain v where
    r: "patch_sections p js
          (set_dst_section i ((dst_section ?st1 i)\<lparr> PointerToLinenumbers := v \<rparr>) ?st1) = Inr st'"
    by (auto simp: Let_def seq_def split: sum.splits)
  have m: "map (\<lambda>s. s\<lparr> PointerToLinenumbers := 0 \<rparr>)
             ((sections (out st))[i := (sections (out st) ! i)\<lparr> PointerToLinenumbers := v \<rparr>])
           = map (\<lambda>s. s\<lparr> PointerToLinenumbers := 0 \<rparr>) (sections (out st))"
    by (rule map_update_same) simp
  from Cons.IH[OF r] show ?case
    by (simp add: set_dst_section_def dst_section_def m add_data_size_frame)
qed

lemma raw_pointers_kept:
  assumes "map (\<lambda>s. s\<lparr> PointerToLinenumbers := 0 \<rparr>) ds
             = map (\<lambda>s. s\<lparr> PointerToLinenumbers := 0 \<rparr>) ss"
  shows "map PointerToRawData ds = map PointerToRawData ss"
proof -
  have "map PointerToRawData xs
          = map PointerToRawData (map (\<lambda>s. s\<lparr> PointerToLinenumbers := 0 \<rparr>) xs)" for xs
    by (simp add: comp_def)
  from this[of ds] this[of ss] assms show ?thesis by simp
qed

lemma has_raw_map:
  "(\<exists>s\<in>set ss. PointerToRawData s \<noteq> 0) = (\<exists>x\<in>set (map PointerToRawData ss). x \<noteq> 0)"
  by auto

lemma patch_sections_defined:
  assumes "length (sections (out st)) = length (sections (mapping p))"
    and "\<exists>s\<in>set (sections (mapping p)). PointerToRawData s \<noteq> 0"
    and "\<exists>d\<in>set (sections (out st)). PointerToRawData d \<noteq> 0"
  shows "\<exists>st'. patch_sections p js st = Inr st'"
  using assms
proof (induction js arbitrary: st)
  case Nil
  then show ?case by simp
next
  case (Cons i js)
  let ?st1 = "st\<lparr> out := (out st)\<lparr> nt := add_data_size (dst_section st i) (nt (out st)) \<rparr> \<rparr>"
  have "\<exists>v. ADJUST_OFFSET (PointerToLinenumbers (dst_section ?st1 i))
               (sections (mapping p)) (sections (out st)) = Inr v"
    using relocate_offset_defined[OF Cons.prems(1) Cons.prems(2) Cons.prems(3)]
    by (simp add: ADJUST_OFFSET_def)
  then obtain v where v: "ADJUST_OFFSET (PointerToLinenumbers (dst_section ?st1 i))
               (sections (mapping p)) (sections (out st)) = Inr v" by blast
  let ?st2 = "set_dst_section i ((dst_section ?st1 i)\<lparr> PointerToLinenumbers := v \<rparr>) ?st1"
  have m: "map PointerToRawData (sections (out ?st2)) = map PointerToRawData (sections (out st))"
    unfolding set_dst_section_def dst_section_def
    by (simp add: map_update_same)
  have l: "length (sections (out ?st2)) = length (sections (mapping p))"
    using Cons.prems(1) by (simp add: set_dst_section_def)
  have r: "\<exists>d\<in>set (sections (out ?st2)). PointerToRawData d \<noteq> 0"
    using Cons.prems(3) unfolding has_raw_map m .
  from Cons.IH[OF l Cons.prems(2) r] show ?case
    by (simp add: Let_def v seq_Inr)
qed

lemma patch_offsets_defined:
  assumes l: "length (sections (out st)) = length (sections (mapping p))"
    and s: "\<exists>s\<in>set (sections (mapping p)). PointerToRawData s \<noteq> 0"
    and d: "\<exists>d\<in>set (sections (out st)). PointerToRawData d \<noteq> 0"
    and g: "unat (DebugSize (nt (out st))) < IMAGE_SIZEOF_DEBUG_DIRECTORY"
  shows "\<exists>st'. patch_offsets p st = Inr st' \<and> dst st' = dst st \<and> chunks st' = chunks st \<and>
     bytes (out st') = bytes (out st) \<and>
     e_magic (out st') = e_magic (out st) \<and> e_lfanew (out st') = e_lfanew (out st) \<and>
     map (\<lambda>s. s\<lparr> PointerToLinenumbers := 0 \<rparr>) (sections (out st'))
       = map (\<lambda>s. s\<lparr> PointerToLinenumbers := 0 \<rparr>) (sections (out st)) \<and>
     (nt (out st'))\<lparr> SizeOfInitializedData := 0, SizeOfUninitializedData := 0,
                     PointerToSymbolTable := 0 \<rparr>
       = (nt (out st))\<lparr> SizeOfInitializedData := 0, SizeOfUninitializedData := 0,
                        PointerToSymbolTable := 0 \<rparr>"
proof -
  let ?st0 = "st\<lparr> out := (out st)\<lparr> nt := (nt (out st))\<lparr> SizeOfInitializedData := 0 \<rparr> \<rparr> \<rparr>"
  let ?st1 = "?st0\<lparr> out := (out ?st0)\<lparr> nt := (nt (out ?st0))\<lparr> SizeOfUninitializedData := 0 \<rparr> \<rparr> \<rparr>"
  have l1: "length (sections (out ?st1)) = length (sections (mapping p))" using l by simp
  have d1: "\<exists>d\<in>set (sections (out ?st1)). PointerToRawData d \<noteq> 0" using d by simp
  from patch_sections_defined[OF l1 s d1] obtain st2 where
    p2: "patch_sections p [0..<length (sections (out ?st1))] ?st1 = Inr st2" by blast
  note f2 = patch_sections_frame[OF p2]
  from f2 have m2: "map (\<lambda>s. s\<lparr> PointerToLinenumbers := 0 \<rparr>) (sections (out st2))
       = map (\<lambda>s. s\<lparr> PointerToLinenumbers := 0 \<rparr>) (sections (out st))" by simp
  from f2 have n2: "(nt (out st2))\<lparr> SizeOfInitializedData := 0, SizeOfUninitializedData := 0 \<rparr>
       = (nt (out st))\<lparr> SizeOfInitializedData := 0, SizeOfUninitializedData := 0 \<rparr>" by simp
  have g2: "DebugSize (nt (out st2)) = DebugSize (nt (out st))"
    using arg_cong[OF n2, of DebugSize] by simp
  have l2: "length (sections (out st2)) = length (sections (mapping p))"
    using arg_cong[OF m2, of length] l by simp
  have d2: "\<exists>d\<in>set (sections (out st2)). PointerToRawData d \<noteq> 0"
    using d unfolding has_raw_map raw_pointers_kept[OF m2] .
  have "\<exists>v. ADJUST_OFFSET (PointerToSymbolTable (nt (out st2)))
               (sections (mapping p)) (sections (out st2)) = Inr v"
    using relocate_offset_defined[OF l2 s d2] by (simp add: ADJUST_OFFSET_def)
  then obtain v where v: "ADJUST_OFFSET (PointerToSymbolTable (nt (out st2)))
               (sections (mapping p)) (sections (out st2)) = Inr v" by blast
  let ?st3 = "st2\<lparr> out := (out st2)\<lparr> nt := (nt (out st2))\<lparr> PointerToSymbolTable := v \<rparr> \<rparr> \<rparr>"
  have z: "unat (DebugSize (nt (out ?st3))) div IMAGE_SIZEOF_DEBUG_DIRECTORY = 0"
    using g g2 by simp
  have n3: "(nt (out ?st3))\<lparr> SizeOfInitializedData := 0, SizeOfUninitializedData := 0,
                     PointerToSymbolTable := 0 \<rparr>
       = (nt (out st))\<lparr> SizeOfInitializedData := 0, SizeOfUninitializedData := 0,
                        PointerToSymbolTable := 0 \<rparr>"
    using arg_cong[OF n2, of "\<lambda>h. h\<lparr> PointerToSymbolTable := 0 \<rparr>"] by simp
  have r: "patch_offsets p st = Inr ?st3"
    unfolding patch_offsets_def Let_def p2 seq_Inr v z
    by (simp split: option.splits)
  show ?thesis
    unfolding r using f2 m2 n3 by simp
qed

subsection \<open>The name \<open>unexec\<close> writes to\<close>

lemma unexec_file_names_Inr:
  assumes "unexec_file_names os new_name = Inr (inn, outn)"
  shows "\<exists>m dir x y base. GetModuleFileNameA os = Some m \<and>
     inn = to_slashes (IsDBCSLeadByte os) m \<and>
     strrchr inn CHR ''/'' = Some (dir, x) \<and>
     strrchr (filename_to_ansi os new_name) CHR ''/'' = Some (y, base) \<and>
     outn = exe_suffixed (dir @ base)"
  using assms unfolding unexec_file_names_def Let_def exe_suffixed_def
  by (auto split: option.splits if_splits prod.splits)

lemma open_output_file_entry:
  assumes opened: "open_output_file os fs filename sz = (Some (p_file, f), fs')"
    and ok: "entries_ok fs"
  shows "lookup fs' filename = Some f \<and> f < length (files fs') \<and>
     (\<forall>p. p \<noteq> filename \<longrightarrow> lookup fs' p = lookup fs p) \<and>
     p_file = \<lparr> name = filename, size_bytes = sz, file_base = MapViewOfFile os,
                mapping = blank_image (unat sz) \<rparr>"
proof -
  let ?fs1 = "DeleteFileA os fs filename"
  have other: "\<And>p. p \<noteq> filename \<Longrightarrow> lookup ?fs1 p = lookup fs p"
    by (simp add: DeleteFileA_def lookup_def lookup_filter)
  have files1: "files ?fs1 = files fs" by (simp add: DeleteFileA_def)
  have ok1: "entries_ok ?fs1"
    using ok by (auto simp: DeleteFileA_def entries_ok_def list_all_iff)
  show ?thesis
  proof (cases "lookup ?fs1 filename")
    case None
    then have c: "CreateFileA_CREATE_ALWAYS ?fs1 filename =
       (length (files fs),
        ?fs1\<lparr> entries := (filename, length (files fs)) # entries ?fs1,
               files := files fs @ [blank_image 0] \<rparr>)"
      by (simp add: CreateFileA_CREATE_ALWAYS_def files1)
    from opened show ?thesis
      using other
      by (auto simp: open_output_file_def Let_def c lookup_def split: if_splits)
  next
    case (Some g)
    then have c: "CreateFileA_CREATE_ALWAYS ?fs1 filename =
       (g, ?fs1\<lparr> files := (files fs)[g := blank_image 0] \<rparr>)"
      by (simp add: CreateFileA_CREATE_ALWAYS_def files1)
    from Some have "(filename, g) \<in> set (entries ?fs1)"
      by (simp add: lookup_def map_of_SomeD)
    with ok1 have g: "g < length (files fs)"
      by (auto simp: entries_ok_def list_all_iff files1)
    from opened show ?thesis
      using other Some g
      by (auto simp: open_output_file_def Let_def c lookup_def split: if_splits)
  qed
qed

lemma unexec_Inr:
  assumes "unexec alpha os proc fs new_name old_name = (Inr log, fs')"
  shows "\<exists>inn outn in_file info out_file f fs1 out'.
     unexec_file_names os new_name = Inr (inn, outn) \<and>
     open_input_file os fs inn = Some in_file \<and>
     get_section_info alpha proc in_file = Inr info \<and>
     open_output_file os fs outn
       (size_bytes in_file + extra_bss_size info + extra_bss_size_static info)
       = (Some (out_file, f), fs1) \<and>
     copy_executable_and_dump_data proc info in_file out_file = Inr (out', log) \<and>
     fs' = close_file_data fs1 f (patch_checksum os out')"
  using assms unfolding unexec_def
  by (auto split: sum.splits option.splits prod.splits)

lemma lookup_close [simp]: "lookup (close_file_data fs f q) p = lookup fs p"
  by (simp add: close_file_data_def lookup_def)

lemma files_close:
  "f < length (files fs) \<Longrightarrow> length (files (close_file_data fs f q)) = length (files fs) \<and>
     files (close_file_data fs f q) ! f = mapping q"
  by (simp add: close_file_data_def)

text \<open>
  C8 (as amended).  When \<open>unexec\<close> completes, on a file system whose directory
  entries all refer to files: the new executable is in the directory of the
  running module's own file (the part of \<open>GetModuleFileNameA\<close>'s answer before
  its last slash), under the last component of the requested name, with \<open>.exe\<close>
  appended when that name does not already end in it.  That name refers to a
  file which holds the dump of the module's file, with the checksum patched; no
  other name of the file system has changed, so the directory of the requested
  name plays no part.
\<close>

theorem unexec_output_name:
  assumes run: "unexec alpha os proc fs new_name old_name = (Inr log, fs')"
    and ok: "entries_ok fs"
  shows "\<exists>m dir x y base f in_file info out'.
     GetModuleFileNameA os = Some m \<and>
     strrchr (to_slashes (IsDBCSLeadByte os) m) CHR ''/'' = Some (dir, x) \<and>
     strrchr (filename_to_ansi os new_name) CHR ''/'' = Some (y, base) \<and>
     lookup fs' (exe_suffixed (dir @ base)) = Some f \<and> f < length (files fs') \<and>
     (\<forall>p. p \<noteq> exe_suffixed (dir @ base) \<longrightarrow> lookup fs' p = lookup fs p) \<and>
     open_input_file os fs (to_slashes (IsDBCSLeadByte os) m) = Some in_file \<and>
     get_section_info alpha proc in_file = Inr info \<and>
     copy_executable_and_dump_data proc info in_file
       \<lparr> name = exe_suffixed (dir @ base),
         size_bytes = size_bytes in_file + extra_bss_size info + extra_bss_size_static info,
         file_base = MapViewOfFile os,
         mapping = blank_image
           (unat (size_bytes in_file + extra_bss_size info + extra_bss_size_static info)) \<rparr>
       = Inr (out', log) \<and>
     files fs' ! f = mapping (patch_checksum os out')"
proof -
  from unexec_Inr[OF run] obtain inn outn in_file info out_file f fs1 out' where
    n: "unexec_file_names os new_name = Inr (inn, outn)"
    and i: "open_input_file os fs inn = Some in_file"
    and g: "get_section_info alpha proc in_file = Inr info"
    and o: "open_output_file os fs outn
       (size_bytes in_file + extra_bss_size info + extra_bss_size_static info)
       = (Some (out_file, f), fs1)"
    and c: "copy_executable_and_dump_data proc info in_file out_file = Inr (out', log)"
    and fs': "fs' = close_file_data fs1 f (patch_checksum os out')"
    by blast
  from unexec_file_names_Inr[OF n] obtain m dir x y base where
    m: "GetModuleFileNameA os = Some m" and inn: "inn = to_slashes (IsDBCSLeadByte os) m"
    and d: "strrchr (to_slashes (IsDBCSLeadByte os) m) CHR ''/'' = Some (dir, x)"
    and b: "strrchr (filename_to_ansi os new_name) CHR ''/'' = Some (y, base)"
    and outn: "outn = exe_suffixed (dir @ base)"
    by blast
  from open_output_file_entry[OF o ok] have
    l: "lookup fs1 outn = Some f" and fl: "f < length (files fs1)"
    and other: "\<forall>p. p \<noteq> outn \<longrightarrow> lookup fs1 p = lookup fs p"
    and pf: "out_file = \<lparr> name = outn,
         size_bytes = size_bytes in_file + extra_bss_size info + extra_bss_size_static info,
         file_base = MapViewOfFile os,
         mapping = blank_image
           (unat (size_bytes in_file + extra_bss_size info + extra_bss_size_static info)) \<rparr>"
    by simp_all
  note fc = files_close[OF fl, of "patch_checksum os out'"]
  show ?thesis
    apply (rule exI[of _ m], rule exI[of _ dir], rule exI[of _ x], rule exI[of _ y],
        rule exI[of _ base], rule exI[of _ f], rule exI[of _ in_file], rule exI[of _ info],
        rule exI[of _ out'])
    using m d b l fl other i g c fc
    unfolding fs' outn inn pf
    by simp
qed

subsection \<open>A complete run on the example\<close>

lemma ex_copy_image:
  "\<exists>st. copy_image ex_proc ex_info ex_in ex_out = Inr st \<and> dst st = 232 \<and>
     sections (out st) =
       [mk_section ''.data'' 0x1000 16 160 16 0x40,
        mk_section ''.bss'' 0x2000 40 176 32 0x40,
        (mk_section ''.rsrc'' 0x3000 16 208 16 0x40)] \<and>
     nt (out st) = ex_nt\<lparr> SizeOfHeaders := 160 \<rparr> \<and> length (bytes (out st)) = 232"
proof -
  have r: "remainder_from ex_in = 192" "remainder_size ex_in = 8"
    by (simp_all add: remainder_from_def remainder_size_def last_raw_def ROUND_UP_W_def ex_simps)
  have h: "bss_section_static ex_info = None"
    "0 < unat (FileAlignment (nt (mapping ex_in)))"
    "header_end (mapping ex_in) \<le> length (bytes (mapping ex_in))"
    "\<forall>s\<in>set (sections (mapping ex_in)). SizeOfRawData s = 0 \<or>
       unat (PointerToRawData s) + unat (SizeOfRawData s) \<le> length (bytes (mapping ex_in))"
    "\<forall>i. data_section ex_info = Some i \<longrightarrow> i < length (sections (mapping ex_in)) \<longrightarrow>
       data_size ex_info = 0 \<or>
       data_end ex_proc ex_info (sections (mapping ex_in) ! i)
         \<le> unat (SizeOfRawData (sections (mapping ex_in) ! i))"
    "\<exists>s\<in>set (sections (mapping ex_in)). PointerToRawData s \<noteq> 0"
    "remainder_size ex_in = 0 \<or>
       unat (remainder_from ex_in) + remainder_size ex_in \<le> length (bytes (mapping ex_in))"
    unfolding r by (simp_all add: ex_simps)
  have e: "layout_end (unat (FileAlignment (nt (mapping ex_in)))) ex_proc ex_info 0
               (ROUND_UP (header_end (mapping ex_in)) (unat (FileAlignment (nt (mapping ex_in)))))
               (sections (mapping ex_in)) = 224"
    by (simp add: ex_simps next_dst_def grown_end_def)
  have t: "layout (unat (FileAlignment (nt (mapping ex_in)))) ex_proc ex_info 0
               (ROUND_UP (header_end (mapping ex_in)) (unat (FileAlignment (nt (mapping ex_in)))))
               (sections (mapping ex_in)) =
       [mk_section ''.data'' 0x1000 16 160 16 0x40,
        mk_section ''.bss'' 0x2000 40 176 32 0x40,
        (mk_section ''.rsrc'' 0x3000 16 208 16 0x40)]"
    by (simp add: ex_simps next_dst_def grown_end_def new_entry_def
        IMAGE_SCN_CNT_UNINITIALIZED_DATA_def IMAGE_SCN_CNT_INITIALIZED_DATA_def)
  have n: "(nt (mapping ex_in))\<lparr> SizeOfHeaders :=
           of_nat (ROUND_UP (header_end (mapping ex_in)) (unat (FileAlignment (nt (mapping ex_in))))) \<rparr>
         = ex_nt\<lparr> SizeOfHeaders := 160 \<rparr>"
    by (simp add: ex_simps)
  have w: "layout_end (unat (FileAlignment (nt (mapping ex_in)))) ex_proc ex_info 0
               (ROUND_UP (header_end (mapping ex_in)) (unat (FileAlignment (nt (mapping ex_in)))))
               (sections (mapping ex_in)) + remainder_size ex_in
             \<le> length (bytes (mapping ex_out))"
    unfolding e r by (simp add: ex_simps)
  from copy_image_view[OF h w] show ?thesis
    unfolding e r t n by (auto simp: view_def ex_out_def blank_image_def)
qed


lemma ex_dump:
  "\<exists>st st'. copy_image ex_proc ex_info ex_in ex_out = Inr st \<and>
     patch_offsets ex_in st = Inr st' \<and>
     copy_executable_and_dump_data ex_proc ex_info ex_in ex_out
       = Inr (ex_out\<lparr> size_bytes := 232, mapping := out st' \<rparr>, chunks st') \<and>
     DebugSize (nt (out st')) = 0"
proof -
  from ex_copy_image obtain st where
    s: "copy_image ex_proc ex_info ex_in ex_out = Inr st" and d: "dst st = 232"
    and t: "sections (out st) =
       [mk_section ''.data'' 0x1000 16 160 16 0x40,
        mk_section ''.bss'' 0x2000 40 176 32 0x40,
        (mk_section ''.rsrc'' 0x3000 16 208 16 0x40)]"
    and n: "nt (out st) = ex_nt\<lparr> SizeOfHeaders := 160 \<rparr>"
    by blast
  have h: "length (sections (out st)) = length (sections (mapping ex_in))"
    "\<exists>s\<in>set (sections (mapping ex_in)). PointerToRawData s \<noteq> 0"
    "\<exists>d\<in>set (sections (out st)). PointerToRawData d \<noteq> 0"
    "unat (DebugSize (nt (out st))) < IMAGE_SIZEOF_DEBUG_DIRECTORY"
    unfolding t n
    by (simp_all add: ex_in_def ex_image_def ex_sections_def ex_nt_def mk_section_def
        IMAGE_SIZEOF_DEBUG_DIRECTORY_def)
  from patch_offsets_defined[OF h] obtain st' where p: "patch_offsets ex_in st = Inr st'"
    and q: "(nt (out st'))\<lparr> SizeOfInitializedData := 0, SizeOfUninitializedData := 0,
                     PointerToSymbolTable := 0 \<rparr>
       = (nt (out st))\<lparr> SizeOfInitializedData := 0, SizeOfUninitializedData := 0,
                        PointerToSymbolTable := 0 \<rparr>"
    by blast
  have g: "DebugSize (nt (out st')) = 0"
    using arg_cong[OF q, of DebugSize] unfolding n by (simp add: ex_nt_def)
  have "copy_executable_and_dump_data ex_proc ex_info ex_in ex_out
       = Inr (ex_out\<lparr> size_bytes := 232, mapping := out st' \<rparr>, chunks st')"
    unfolding copy_executable_and_dump_data_def s p seq_Inr d by simp
  with s p g show ?thesis by blast
qed

lemma ex_unexec:
  "\<exists>out' log. copy_executable_and_dump_data ex_proc ex_info ex_in ex_out = Inr (out', log) \<and>
     unexec False ex_os ex_proc ex_fs ''D:/build/emacs'' ''temacs''
       = (Inr log, close_file_data ex_fs_opened 2 (patch_checksum ex_os out'))"
proof -
  from ex_dump obtain out' log where
    c: "copy_executable_and_dump_data ex_proc ex_info ex_in ex_out = Inr (out', log)"
    by blast
  have z: "size_bytes ex_in + extra_bss_size ex_info + extra_bss_size_static ex_info = 232"
    by (simp add: ex_in_def ex_info_def)
  have "unexec False ex_os ex_proc ex_fs ''D:/build/emacs'' ''temacs''
       = (Inr log, close_file_data ex_fs_opened 2 (patch_checksum ex_os out'))"
    by (simp add: unexec_def ex_file_names ex_open_input ex_get_section_info z ex_open_output c)
  with c show ?thesis by blast
qed

theorem unexec_output_name_witness:
  "\<not> isl (fst (unexec False ex_os ex_proc ex_fs ''D:/build/emacs'' ''temacs'')) \<and>
   entries_ok ex_fs \<and>
   lookup (snd (unexec False ex_os ex_proc ex_fs ''D:/build/emacs'' ''temacs''))
     ''C:/emacs/bin/emacs.exe'' \<noteq> None \<and>
   lookup (snd (unexec False ex_os ex_proc ex_fs ''D:/build/emacs'' ''temacs''))
     ''D:/build/emacs.exe'' = None"
proof -
  from ex_unexec obtain log fs' where
    run: "unexec False ex_os ex_proc ex_fs ''D:/build/emacs'' ''temacs'' = (Inr log, fs')"
    by blast
  have ok: "entries_ok ex_fs" by (simp add: entries_ok_def ex_fs_def)
  from unexec_output_name[OF run ok] obtain m dir x y base f where
    m: "GetModuleFileNameA ex_os = Some m"
    and d: "strrchr (to_slashes (IsDBCSLeadByte ex_os) m) CHR ''/'' = Some (dir, x)"
    and b: "strrchr (filename_to_ansi ex_os ''D:/build/emacs'') CHR ''/'' = Some (y, base)"
    and l: "lookup fs' (exe_suffixed (dir @ base)) = Some f"
    and o: "\<forall>p. p \<noteq> exe_suffixed (dir @ base) \<longrightarrow> lookup fs' p = lookup ex_fs p"
    by blast
  from m d have dir: "dir = ''C:/emacs/bin''"
    by (auto simp: ex_os_def strrchr_def)
  from b have base: "base = ''/emacs''"
    by (auto simp: ex_os_def strrchr_def)
  have e: "exe_suffixed (dir @ base) = ''C:/emacs/bin/emacs.exe''"
    unfolding dir base by (simp add: exe_suffixed_def)
  from l have a: "lookup fs' ''C:/emacs/bin/emacs.exe'' \<noteq> None" unfolding e by simp
  from o have "lookup fs' ''D:/build/emacs.exe'' = lookup ex_fs ''D:/build/emacs.exe''"
    unfolding e by simp
  then have n: "lookup fs' ''D:/build/emacs.exe'' = None"
    by (simp add: lookup_def ex_fs_def)
  show ?thesis unfolding run using ok a n by simp
qed

text \<open>
  C8 as stated fails when the requested name is in another directory than the
  running module: asked for \<open>D:/build/emacs\<close> while running
  \<open>C:/emacs/bin/temacs.exe\<close>, \<open>unexec\<close> completes, and neither \<open>D:/build/emacs.exe\<close>
  nor \<open>D:/build/emacs\<close> exists afterwards; the new executable is
  \<open>C:/emacs/bin/emacs.exe\<close>.
\<close>

theorem unexec_writes_beside_the_module:
  "exe_suffixed ''D:/build/emacs'' = ''D:/build/emacs.exe'' \<and>
   \<not> isl (fst (unexec False ex_os ex_proc ex_fs ''D:/build/emacs'' ''temacs'')) \<and>
   lookup (snd (unexec False ex_os ex_proc ex_fs ''D:/build/emacs'' ''temacs''))
     ''D:/build/emacs.exe'' = None \<and>
   lookup (snd (unexec False ex_os ex_proc ex_fs ''D:/build/emacs'' ''temacs''))
     ''D:/build/emacs'' = None \<and>
   lookup (snd (unexec False ex_os ex_proc ex_fs ''D:/build/emacs'' ''temacs''))
     ''C:/emacs/bin/emacs.exe'' = Some 2"
proof -
  from ex_unexec obtain out' log where
    run: "unexec False ex_os ex_proc ex_fs ''D:/build/emacs'' ''temacs''
       = (Inr log, close_file_data ex_fs_opened 2 (patch_checksum ex_os out'))"
    by blast
  have l: "lookup (close_file_data ex_fs_opened 2 (patch_checksum ex_os out')) p
             = lookup ex_fs_opened p" for p
    by (rule lookup_close)
  have v: "lookup ex_fs_opened ''D:/build/emacs.exe'' = None"
    "lookup ex_fs_opened ''D:/build/emacs'' = None"
    "lookup ex_fs_opened ''C:/emacs/bin/emacs.exe'' = Some 2"
    by (simp_all add: lookup_def ex_fs_opened_def)
  have e: "exe_suffixed ''D:/build/emacs'' = ''D:/build/emacs.exe''"
    by (simp add: exe_suffixed_def)
  show ?thesis
    unfolding run using l v e by simp
qed

subsection \<open>What a completed step has kept and written\<close>

lemma kept_trans:
  "kept n st st1 \<Longrightarrow> kept m st1 st2 \<Longrightarrow> n \<le> m \<Longrightarrow> kept n st st2"
proof -
  assume a: "kept n st st1" and b: "kept m st1 st2" and le: "n \<le> m"
  from b have "take n (take m (bytes (out st2))) = take n (take m (bytes (out st1)))"
    by (simp add: kept_def)
  with le have "take n (bytes (out st2)) = take n (bytes (out st1))"
    by (simp add: min_absorb1)
  with a b le show ?thesis by (simp add: kept_def)
qed

lemma seq_InrE: "seq m f = Inr y \<Longrightarrow> \<exists>x. m = Inr x \<and> f x = Inr y"
  by (cases m) (simp_all add: seq_def)

lemma seg_overwrite:
  "at + length bs \<le> length buf \<Longrightarrow> take (length bs) (drop at (overwrite at bs buf)) = bs"
  by (simp add: overwrite_def)

lemma seg_kept:
  assumes "take n xs = take n ys" and "at + m \<le> n"
  shows "take m (drop at xs) = take m (drop at ys)"
proof -
  have "take m (drop at zs) = drop at (take (at + m) (take n zs))" for zs :: "'a list"
    using assms(2) by (simp add: drop_take min_absorb1)
  from this[of xs] this[of ys] assms(1) show ?thesis by simp
qed

lemma overwrite_nil [simp]: "overwrite at [] buf = buf"
  by (simp add: overwrite_def)

lemma put_Inr:
  assumes "put msg src bs st = Inr st'"
  shows "bs = [] \<or> dst st + length bs \<le> length (bytes (out st))"
    and "st' = st\<lparr> out := (out st)\<lparr> bytes := overwrite (dst st) bs (bytes (out st)) \<rparr>,
              dst := dst st + length bs,
              chunks := chunks st @
                [\<lparr> message = msg, source = src, target = dst st, count = length bs \<rparr>] \<rparr>"
proof -
  from assms show b: "bs = [] \<or> dst st + length bs \<le> length (bytes (out st))"
    by (auto simp: put_def write_bytes_def split: if_splits)
  from assms show "st' = st\<lparr> out := (out st)\<lparr> bytes := overwrite (dst st) bs (bytes (out st)) \<rparr>,
              dst := dst st + length bs,
              chunks := chunks st @
                [\<lparr> message = msg, source = src, target = dst st, count = length bs \<rparr>] \<rparr>"
    unfolding put_ok[OF b] by simp
qed

lemma COPY_CHUNK_Inr:
  assumes "COPY_CHUNK msg f src n st = Inr st'"
  shows "n = 0 \<or> src + n \<le> length (bytes (mapping f))"
    and "n = 0 \<or> dst st + n \<le> length (bytes (out st))"
    and "st' = st\<lparr> out := (out st)\<lparr> bytes :=
                  overwrite (dst st) (take n (drop src (bytes (mapping f)))) (bytes (out st)) \<rparr>,
              dst := dst st + n,
              chunks := chunks st @
                [\<lparr> message = msg, source = src, target = dst st, count = n \<rparr>] \<rparr>"
proof -
  from assms show r: "n = 0 \<or> src + n \<le> length (bytes (mapping f))"
    by (auto simp: COPY_CHUNK_def read_bytes_def split: if_splits option.splits)
  from assms have p: "put msg src (take n (drop src (bytes (mapping f)))) st = Inr st'"
    unfolding COPY_CHUNK_def read_bytes_ok[OF r] by simp
  define bs where "bs = take n (drop src (bytes (mapping f)))"
  have l: "length bs = n" using r by (auto simp: bs_def)
  from put_Inr(1)[OF p, folded bs_def] l
  show w: "n = 0 \<or> dst st + n \<le> length (bytes (out st))"
    by auto
  from assms show "st' = st\<lparr> out := (out st)\<lparr> bytes :=
                  overwrite (dst st) (take n (drop src (bytes (mapping f)))) (bytes (out st)) \<rparr>,
              dst := dst st + n,
              chunks := chunks st @
                [\<lparr> message = msg, source = src, target = dst st, count = n \<rparr>] \<rparr>"
    unfolding COPY_CHUNK_ok[OF r w] by simp
qed

lemma COPY_PROC_CHUNK_Inr:
  assumes "COPY_PROC_CHUNK msg proc addr n st = Inr st'"
  shows "n = 0 \<or> dst st + n \<le> length (bytes (out st))"
    and "st' = st\<lparr> out := (out st)\<lparr> bytes :=
                  overwrite (dst st) (proc_bytes proc addr n) (bytes (out st)) \<rparr>,
              dst := dst st + n,
              chunks := chunks st @
                [\<lparr> message = msg, source = unat addr, target = dst st, count = n \<rparr>] \<rparr>"
proof -
  from assms have p: "put msg (unat addr) (proc_bytes proc addr n) st = Inr st'"
    by (simp add: COPY_PROC_CHUNK_def)
  from put_Inr(1)[OF p] show w: "n = 0 \<or> dst st + n \<le> length (bytes (out st))"
    by (auto simp: proc_bytes_def)
  from assms show "st' = st\<lparr> out := (out st)\<lparr> bytes :=
                  overwrite (dst st) (proc_bytes proc addr n) (bytes (out st)) \<rparr>,
              dst := dst st + n,
              chunks := chunks st @
                [\<lparr> message = msg, source = unat addr, target = dst st, count = n \<rparr>] \<rparr>"
    unfolding COPY_PROC_CHUNK_ok[OF w] by simp
qed

lemma ROUND_UP_DST_AND_ZERO_Inr:
  assumes "ROUND_UP_DST_AND_ZERO st = Inr st'"
  shows "dst st \<le> ROUND_UP (dst st) (dst_align st)"
    and "ROUND_UP (dst st) (dst_align st) = dst st
         \<or> ROUND_UP (dst st) (dst_align st) \<le> length (bytes (out st))"
    and "st' = st\<lparr> out := (out st)\<lparr> bytes :=
                  overwrite (dst st) (replicate (ROUND_UP (dst st) (dst_align st) - dst st) 0)
                    (bytes (out st)) \<rparr>,
              dst := ROUND_UP (dst st) (dst_align st) \<rparr>"
proof -
  let ?R = "ROUND_UP (dst st) (dst_align st)"
  from assms show ge: "dst st \<le> ?R"
    by (auto simp: ROUND_UP_DST_AND_ZERO_def Let_def split: if_splits)
  from assms ge show b: "?R = dst st \<or> ?R \<le> length (bytes (out st))"
    by (auto simp: ROUND_UP_DST_AND_ZERO_def Let_def write_bytes_def
        split: if_splits option.splits)
  have "replicate (?R - dst st) (0 :: BYTE) = [] \<or>
        dst st + length (replicate (?R - dst st) (0 :: BYTE)) \<le> length (bytes (out st))"
    using ge b by auto
  from write_bytes_ok[OF this] assms ge show "st' = st\<lparr> out := (out st)\<lparr> bytes :=
                  overwrite (dst st) (replicate (?R - dst st) 0) (bytes (out st)) \<rparr>,
              dst := ?R \<rparr>"
    by (simp add: ROUND_UP_DST_AND_ZERO_def Let_def)
qed

text \<open>What the primitive steps keep and write.\<close>

lemma COPY_CHUNK_kept:
  assumes "COPY_CHUNK msg f src n st = Inr st'"
  shows "kept (dst st) st st'" and "dst st' = dst st + n"
    and "take n (drop (dst st) (bytes (out st'))) = take n (drop src (bytes (mapping f)))"
    and "sections (out st') = sections (out st)" and "nt (out st') = nt (out st)"
    and "e_magic (out st') = e_magic (out st)" and "e_lfanew (out st') = e_lfanew (out st)"
    and "chunks st' = chunks st @ [\<lparr> message = msg, source = src, target = dst st, count = n \<rparr>]"
proof -
  note f = COPY_CHUNK_Inr[OF assms]
  let ?bs = "take n (drop src (bytes (mapping f)))"
  have l: "length ?bs = n" using f(1) by auto
  have w: "?bs = [] \<or> dst st + length ?bs \<le> length (bytes (out st))"
    using f(2) l by auto
  show "kept (dst st) st st'"
    unfolding f(3) kept_def using w by (simp add: length_overwrite take_overwrite del: length_take)
  show "dst st' = dst st + n" unfolding f(3) by simp
  show "take n (drop (dst st) (bytes (out st'))) = take n (drop src (bytes (mapping f)))"
  proof (cases "n = 0")
    case True
    then show ?thesis by simp
  next
    case False
    with f(2) l have "dst st + length ?bs \<le> length (bytes (out st))" by simp
    from seg_overwrite[OF this] show ?thesis unfolding f(3) l by simp
  qed
  show "sections (out st') = sections (out st)" "nt (out st') = nt (out st)"
    "e_magic (out st') = e_magic (out st)" "e_lfanew (out st') = e_lfanew (out st)"
    unfolding f(3) by simp_all
  show "chunks st' = chunks st @ [\<lparr> message = msg, source = src, target = dst st, count = n \<rparr>]"
    unfolding f(3) by simp
qed

lemma COPY_PROC_CHUNK_kept:
  assumes "COPY_PROC_CHUNK msg proc addr n st = Inr st'"
  shows "kept (dst st) st st'" and "dst st' = dst st + n"
    and "take n (drop (dst st) (bytes (out st'))) = proc_bytes proc addr n"
    and "sections (out st') = sections (out st)" and "nt (out st') = nt (out st)"
    and "e_magic (out st') = e_magic (out st)" and "e_lfanew (out st') = e_lfanew (out st)"
    and "chunks st' = chunks st @
           [\<lparr> message = msg, source = unat addr, target = dst st, count = n \<rparr>]"
proof -
  note f = COPY_PROC_CHUNK_Inr[OF assms]
  let ?bs = "proc_bytes proc addr n"
  have w: "?bs = [] \<or> dst st + length ?bs \<le> length (bytes (out st))"
    using f(1) by (auto simp: proc_bytes_def)
  show "kept (dst st) st st'"
    unfolding f(2) kept_def using w by (simp add: length_overwrite take_overwrite)
  show "dst st' = dst st + n" unfolding f(2) by simp
  show "take n (drop (dst st) (bytes (out st'))) = proc_bytes proc addr n"
  proof (cases "n = 0")
    case True
    then show ?thesis by (simp add: proc_bytes_def)
  next
    case False
    with f(1) have "dst st + length ?bs \<le> length (bytes (out st))" by simp
    from seg_overwrite[OF this] show ?thesis unfolding f(2) by simp
  qed
  show "sections (out st') = sections (out st)" "nt (out st') = nt (out st)"
    "e_magic (out st') = e_magic (out st)" "e_lfanew (out st') = e_lfanew (out st)"
    unfolding f(2) by simp_all
  show "chunks st' = chunks st @
           [\<lparr> message = msg, source = unat addr, target = dst st, count = n \<rparr>]"
    unfolding f(2) by simp
qed

lemma ROUND_UP_DST_AND_ZERO_kept:
  assumes "ROUND_UP_DST_AND_ZERO st = Inr st'"
  shows "kept (dst st) st st'" and "dst st' = ROUND_UP (dst st) (dst_align st)"
    and "take (dst st' - dst st) (drop (dst st) (bytes (out st')))
           = replicate (dst st' - dst st) 0"
    and "sections (out st') = sections (out st)" and "nt (out st') = nt (out st)"
    and "e_magic (out st') = e_magic (out st)" and "e_lfanew (out st') = e_lfanew (out st)"
    and "chunks st' = chunks st"
proof -
  note f = ROUND_UP_DST_AND_ZERO_Inr[OF assms]
  let ?R = "ROUND_UP (dst st) (dst_align st)"
  let ?bs = "replicate (?R - dst st) (0 :: BYTE)"
  have w: "?bs = [] \<or> dst st + length ?bs \<le> length (bytes (out st))"
    using f(1,2) by auto
  show "kept (dst st) st st'"
    unfolding f(3) kept_def using w f(1)
    by (simp add: length_overwrite take_overwrite del: length_replicate)
  show d: "dst st' = ?R" unfolding f(3) by simp
  show "take (dst st' - dst st) (drop (dst st) (bytes (out st')))
           = replicate (dst st' - dst st) 0"
  proof (cases "?R = dst st")
    case True
    then show ?thesis unfolding d by simp
  next
    case False
    with f(1,2) have "dst st + length ?bs \<le> length (bytes (out st))" by simp
    from seg_overwrite[OF this] show ?thesis unfolding d f(3) by simp
  qed
  show "sections (out st') = sections (out st)" "nt (out st') = nt (out st)"
    "e_magic (out st') = e_magic (out st)" "e_lfanew (out st') = e_lfanew (out st)"
    unfolding f(3) by simp_all
  show "chunks st' = chunks st" unfolding f(3) by simp
qed

lemma kept_refl: "n \<le> dst st \<Longrightarrow> kept n st st"
  by (simp add: kept_def)

lemma kept_le: "kept m st st' \<Longrightarrow> n \<le> m \<Longrightarrow> kept n st st'"
proof -
  assume a: "kept m st st'" and le: "n \<le> m"
  from a have "take n (take m (bytes (out st'))) = take n (take m (bytes (out st)))"
    by (simp add: kept_def)
  with le have "take n (bytes (out st')) = take n (bytes (out st))"
    by (simp add: min_absorb1)
  with a le show ?thesis by (simp add: kept_def)
qed

lemma kept_dst: "kept n st st' \<Longrightarrow> n \<le> dst st'"
  by (simp add: kept_def)

lemma kept_align: "kept n st st' \<Longrightarrow> dst_align st' = dst_align st"
  by (simp add: kept_def dst_align_def)

lemma kept_length: "kept n st st' \<Longrightarrow> length (bytes (out st')) = length (bytes (out st))"
  by (simp add: kept_def)

lemma kept_seg:
  "kept n st st' \<Longrightarrow> at + m \<le> n \<Longrightarrow>
     take m (drop at (bytes (out st'))) = take m (drop at (bytes (out st)))"
  unfolding kept_def using seg_kept by blast

lemma kept_same_bytes:
  "bytes (out st') = bytes (out st) \<Longrightarrow> FileAlignment (nt (out st')) = FileAlignment (nt (out st)) \<Longrightarrow>
     n \<le> dst st' \<Longrightarrow> kept n st st'"
  by (simp add: kept_def)

lemma dump_data_Inr:
  assumes r: "dump_data proc info i dst_save st = Inr st'"
  shows "kept dst_save st st'"
    and "sections (out st') = sections (out st)" and "nt (out st') = nt (out st)"
    and "e_magic (out st') = e_magic (out st)" and "e_lfanew (out st') = e_lfanew (out st)"
    and "filter is_bss_dump (chunks st') = filter is_bss_dump (chunks st)"
proof -
  let ?st = "st\<lparr> dst := dst_save +
                 unat (RVA_TO_SECTION_OFFSET (PTR_TO_RVA proc (data_start info))
                         (dst_section st i)) \<rparr>"
  from seq_InrE[OF r[unfolded dump_data_def]] obtain st1 where
    c: "COPY_PROC_CHUNK DumpingInitializedData proc (data_start info) (unat (data_size info)) ?st
          = Inr st1"
    and e: "st' = st1\<lparr> dst := dst_save + unat (SizeOfRawData (dst_section st1 i)) \<rparr>"
    by auto
  note k = COPY_PROC_CHUNK_kept[OF c]
  from k(1) have "kept dst_save ?st st1" by (rule kept_le) simp
  then show "kept dst_save st st'"
    unfolding e by (simp add: kept_def)
  from k(4-7) show "sections (out st') = sections (out st)" "nt (out st') = nt (out st)"
    "e_magic (out st') = e_magic (out st)" "e_lfanew (out st') = e_lfanew (out st)"
    unfolding e by simp_all
  show "filter is_bss_dump (chunks st') = filter is_bss_dump (chunks st)"
    unfolding e using k(8) by (simp add: is_bss_dump_def)
qed

lemma dump_bss_Inr:
  assumes r: "dump_bss msg proc start sz i dst_save st = Inr st'"
  defines "T \<equiv> dst_save + unat (RVA_TO_SECTION_OFFSET (PTR_TO_RVA proc start) (dst_section st i))"
  shows "kept dst_save st st'"
    and "chunks st' = chunks st @
           [\<lparr> message = msg, source = unat start, target = T, count = unat sz \<rparr>]"
    and "take (unat sz) (drop T (bytes (out st'))) = proc_bytes proc start (unat sz)"
    and "0 < dst_align st \<Longrightarrow> T + unat sz \<le> dst st'"
    and "nt (out st') = nt (out st)"
    and "e_magic (out st') = e_magic (out st)" and "e_lfanew (out st') = e_lfanew (out st)"
proof -
  let ?st = "st\<lparr> dst := T \<rparr>"
  from r obtain st1 where
    c: "COPY_PROC_CHUNK msg proc start (unat sz) ?st = Inr st1"
    and b: "bytes (out st') = bytes (out st1)" and ch: "chunks st' = chunks st1"
    and n: "nt (out st') = nt (out st1)"
    and m: "e_magic (out st') = e_magic (out st1)" "e_lfanew (out st') = e_lfanew (out st1)"
    and d: "ROUND_UP (dst st1) (dst_align st1) \<le> dst st'" "dst_save \<le> dst st'"
    unfolding dump_bss_def T_def
    by (auto simp: seq_def Let_def set_dst_section_def ROUND_UP_DST_def dst_align_def
        split: sum.splits)
  note k = COPY_PROC_CHUNK_kept[OF c]
  have le: "dst_save \<le> T" by (simp add: T_def)
  from k(1) le have k1: "kept dst_save ?st st1"
    by (simp add: kept_le)
  show "kept dst_save st st'"
    using k1 d(2) b n by (simp add: kept_def)
  show "chunks st' = chunks st @
           [\<lparr> message = msg, source = unat start, target = T, count = unat sz \<rparr>]"
    unfolding ch using k(8) by simp
  show "take (unat sz) (drop T (bytes (out st'))) = proc_bytes proc start (unat sz)"
    unfolding b using k(3) by simp
  show "T + unat sz \<le> dst st'" if a: "0 < dst_align st"
  proof -
    have "dst_align st1 = dst_align st" using k(5) by (simp add: dst_align_def)
    with a have "dst st1 \<le> ROUND_UP (dst st1) (dst_align st1)" by (simp add: ROUND_UP_ge)
    with k(2) d(1) show ?thesis by simp
  qed
  show "nt (out st') = nt (out st)" unfolding n using k(5) by simp
  show "e_magic (out st') = e_magic (out st)" unfolding m using k(6) by simp
  show "e_lfanew (out st') = e_lfanew (out st)" unfolding m using k(7) by simp
qed

lemma copy_section_steps:
  assumes r: "copy_section proc info f i st = Inr st'"
  shows "\<exists>st1 st2 st3 st4 st5.
     COPY_CHUNK (CopyingRawData i) f
       (unat (PointerToRawData (sections (mapping f) ! i)))
       (unat (SizeOfRawData (sections (mapping f) ! i)))
       (if PointerToRawData (dst_section st i) \<noteq> 0
        then set_dst_section i ((dst_section st i)\<lparr> PointerToRawData := of_nat (dst st) \<rparr>) st
        else st) = Inr st1 \<and>
     ROUND_UP_DST_AND_ZERO st1 = Inr st2 \<and>
     (if Some i = data_section info then dump_data proc info i (dst st) st2 else Inr st2)
       = Inr st3 \<and>
     (if Some i = bss_section info
      then dump_bss DumpingBssData proc (bss_start info) (bss_size info) i (dst st) st3
      else Inr st3) = Inr st4 \<and>
     (if Some i = bss_section_static info
      then dump_bss DumpingStaticBssData proc
             (bss_start_static info) (bss_size_static info) i (dst st) st4
      else Inr st4) = Inr st5 \<and>
     st' = ROUND_UP_DST st5"
proof -
  note r0 = r[unfolded copy_section_def Let_def]
  from seq_InrE[OF r0] obtain st1 where s1: "COPY_CHUNK (CopyingRawData i) f
       (unat (PointerToRawData (sections (mapping f) ! i)))
       (unat (SizeOfRawData (sections (mapping f) ! i)))
       (if PointerToRawData (dst_section st i) \<noteq> 0
        then set_dst_section i ((dst_section st i)\<lparr> PointerToRawData := of_nat (dst st) \<rparr>) st
        else st) = Inr st1"
    and r1: "seq (ROUND_UP_DST_AND_ZERO st1) (\<lambda>st2.
      seq (if Some i = data_section info then dump_data proc info i (dst st) st2
           else Inr st2) (\<lambda>st3.
      seq (if Some i = bss_section info
           then dump_bss DumpingBssData proc (bss_start info) (bss_size info) i (dst st) st3
           else Inr st3) (\<lambda>st4.
      seq (if Some i = bss_section_static info
           then dump_bss DumpingStaticBssData proc
                  (bss_start_static info) (bss_size_static info) i (dst st) st4
           else Inr st4) (\<lambda>st5.
        Inr (ROUND_UP_DST st5))))) = Inr st'"
    by blast
  from seq_InrE[OF r1] obtain st2 where s2: "ROUND_UP_DST_AND_ZERO st1 = Inr st2"
    and r2: "seq (if Some i = data_section info then dump_data proc info i (dst st) st2
           else Inr st2) (\<lambda>st3.
      seq (if Some i = bss_section info
           then dump_bss DumpingBssData proc (bss_start info) (bss_size info) i (dst st) st3
           else Inr st3) (\<lambda>st4.
      seq (if Some i = bss_section_static info
           then dump_bss DumpingStaticBssData proc
                  (bss_start_static info) (bss_size_static info) i (dst st) st4
           else Inr st4) (\<lambda>st5.
        Inr (ROUND_UP_DST st5)))) = Inr st'"
    by blast
  from seq_InrE[OF r2] obtain st3 where
    s3: "(if Some i = data_section info then dump_data proc info i (dst st) st2 else Inr st2)
       = Inr st3"
    and r3: "seq (if Some i = bss_section info
           then dump_bss DumpingBssData proc (bss_start info) (bss_size info) i (dst st) st3
           else Inr st3) (\<lambda>st4.
      seq (if Some i = bss_section_static info
           then dump_bss DumpingStaticBssData proc
                  (bss_start_static info) (bss_size_static info) i (dst st) st4
           else Inr st4) (\<lambda>st5.
        Inr (ROUND_UP_DST st5))) = Inr st'"
    by blast
  from seq_InrE[OF r3] obtain st4 where
    s4: "(if Some i = bss_section info
      then dump_bss DumpingBssData proc (bss_start info) (bss_size info) i (dst st) st3
      else Inr st3) = Inr st4"
    and r4: "seq (if Some i = bss_section_static info
           then dump_bss DumpingStaticBssData proc
                  (bss_start_static info) (bss_size_static info) i (dst st) st4
           else Inr st4) (\<lambda>st5.
        Inr (ROUND_UP_DST st5)) = Inr st'"
    by blast
  from seq_InrE[OF r4] obtain st5 where
    s5: "(if Some i = bss_section_static info
      then dump_bss DumpingStaticBssData proc
             (bss_start_static info) (bss_size_static info) i (dst st) st4
      else Inr st4) = Inr st5"
    and r5: "st' = ROUND_UP_DST st5"
    by auto
  from s1 s2 s3 s4 s5 r5 show ?thesis by blast
qed


lemma copy_section_kept:
  assumes r: "copy_section proc info f i st = Inr st'" and a: "0 < dst_align st"
  shows "kept (dst st) st st'"
proof -
  let ?st0 = "if PointerToRawData (dst_section st i) \<noteq> 0
        then set_dst_section i ((dst_section st i)\<lparr> PointerToRawData := of_nat (dst st) \<rparr>) st
        else st"
  from copy_section_steps[OF r] obtain st1 st2 st3 st4 st5 where
    s1: "COPY_CHUNK (CopyingRawData i) f
       (unat (PointerToRawData (sections (mapping f) ! i)))
       (unat (SizeOfRawData (sections (mapping f) ! i))) ?st0 = Inr st1"
    and s2: "ROUND_UP_DST_AND_ZERO st1 = Inr st2"
    and s3: "(if Some i = data_section info then dump_data proc info i (dst st) st2 else Inr st2)
       = Inr st3"
    and s4: "(if Some i = bss_section info
      then dump_bss DumpingBssData proc (bss_start info) (bss_size info) i (dst st) st3
      else Inr st3) = Inr st4"
    and s5: "(if Some i = bss_section_static info
      then dump_bss DumpingStaticBssData proc
             (bss_start_static info) (bss_size_static info) i (dst st) st4
      else Inr st4) = Inr st5"
    and e: "st' = ROUND_UP_DST st5"
    by blast
  have k0: "kept (dst st) st ?st0" by (simp add: kept_def set_dst_section_def)
  have d0: "dst ?st0 = dst st" by (simp add: set_dst_section_def)
  from COPY_CHUNK_kept(1)[OF s1] have k1: "kept (dst st) ?st0 st1" unfolding d0 .
  from kept_trans[OF k0 k1] have k01: "kept (dst st) st st1" by simp
  from kept_trans[OF k01 ROUND_UP_DST_AND_ZERO_kept(1)[OF s2] kept_dst[OF k01]]
  have k2: "kept (dst st) st st2" .
  have "kept (dst st) st2 st3"
    using s3 kept_dst[OF k2] by (auto simp: dump_data_Inr(1) kept_refl split: if_splits)
  from kept_trans[OF k2 this] have k3: "kept (dst st) st st3" by simp
  have "kept (dst st) st3 st4"
    using s4 kept_dst[OF k3] by (auto simp: dump_bss_Inr(1) kept_refl split: if_splits)
  from kept_trans[OF k3 this] have k4: "kept (dst st) st st4" by simp
  have "kept (dst st) st4 st5"
    using s5 kept_dst[OF k4] by (auto simp: dump_bss_Inr(1) kept_refl split: if_splits)
  from kept_trans[OF k4 this] have k5: "kept (dst st) st st5" by simp
  have "0 < dst_align st5" using a kept_align[OF k5] by simp
  then have "dst st5 \<le> ROUND_UP (dst st5) (dst_align st5)" by (rule ROUND_UP_ge)
  with k5 show ?thesis
    unfolding e by (simp add: kept_def ROUND_UP_DST_def)
qed

lemma copy_section_bss_dump:
  assumes r: "copy_section proc info f i st = Inr st'" and a: "0 < dst_align st"
    and static: "bss_section_static info \<noteq> Some i"
    and i: "i < length (sections (out st))"
  defines "T \<equiv> dst st + unat (RVA_TO_SECTION_OFFSET (PTR_TO_RVA proc (bss_start info))
                               (sections (out st) ! i))"
  shows "filter is_bss_dump (chunks st') = filter is_bss_dump (chunks st) @
           (if Some i = bss_section info
            then [\<lparr> message = DumpingBssData, source = unat (bss_start info), target = T,
                     count = unat (bss_size info) \<rparr>]
            else [])"
    and "Some i = bss_section info \<Longrightarrow> T + unat (bss_size info) \<le> dst st'"
    and "Some i = bss_section info \<Longrightarrow>
           take (unat (bss_size info)) (drop T (bytes (out st')))
             = proc_bytes proc (bss_start info) (unat (bss_size info))"
proof -
  let ?st0 = "if PointerToRawData (dst_section st i) \<noteq> 0
        then set_dst_section i ((dst_section st i)\<lparr> PointerToRawData := of_nat (dst st) \<rparr>) st
        else st"
  from copy_section_steps[OF r] static obtain st1 st2 st3 st4 where
    s1: "COPY_CHUNK (CopyingRawData i) f
       (unat (PointerToRawData (sections (mapping f) ! i)))
       (unat (SizeOfRawData (sections (mapping f) ! i))) ?st0 = Inr st1"
    and s2: "ROUND_UP_DST_AND_ZERO st1 = Inr st2"
    and s3: "(if Some i = data_section info then dump_data proc info i (dst st) st2 else Inr st2)
       = Inr st3"
    and s4: "(if Some i = bss_section info
      then dump_bss DumpingBssData proc (bss_start info) (bss_size info) i (dst st) st3
      else Inr st3) = Inr st4"
    and e: "st' = ROUND_UP_DST st4"
    by auto
  note k1 = COPY_CHUNK_kept[OF s1]
  note k2 = ROUND_UP_DST_AND_ZERO_kept[OF s2]
  have c2: "filter is_bss_dump (chunks st2) = filter is_bss_dump (chunks st)"
    unfolding k2(8) k1(8) by (simp add: is_bss_dump_def set_dst_section_def)
  have t2: "sections (out st2) = sections (out ?st0)" "nt (out st2) = nt (out st)"
    unfolding k2(4,5) k1(4,5) by (simp_all add: set_dst_section_def)
  have c3: "filter is_bss_dump (chunks st3) = filter is_bss_dump (chunks st)"
    and t3: "sections (out st3) = sections (out ?st0)" "nt (out st3) = nt (out st)"
    using s3 c2 t2 by (auto simp: dump_data_Inr split: if_splits)
  have o: "RVA_TO_SECTION_OFFSET rva (dst_section st3 i)
             = RVA_TO_SECTION_OFFSET rva (sections (out st) ! i)" for rva
    unfolding dst_section_def t3 using i
    by (simp add: set_dst_section_def dst_section_def)
  have a3: "0 < dst_align st3" using a t3(2) by (simp add: dst_align_def)
  show "filter is_bss_dump (chunks st') = filter is_bss_dump (chunks st) @
           (if Some i = bss_section info
            then [\<lparr> message = DumpingBssData, source = unat (bss_start info), target = T,
                     count = unat (bss_size info) \<rparr>]
            else [])"
  proof (cases "Some i = bss_section info")
    case True
    with s4 have d: "dump_bss DumpingBssData proc (bss_start info) (bss_size info) i (dst st) st3
        = Inr st4" by simp
    from dump_bss_Inr(2)[OF d] c3 True show ?thesis
      unfolding e o T_def by (simp add: ROUND_UP_DST_def is_bss_dump_def)
  next
    case False
    with s4 c3 show ?thesis unfolding e by (simp add: ROUND_UP_DST_def)
  qed
  assume b: "Some i = bss_section info"
  with s4 have d: "dump_bss DumpingBssData proc (bss_start info) (bss_size info) i (dst st) st3
        = Inr st4" by simp
  have a4: "0 < dst_align st4"
    using a3 dump_bss_Inr(5)[OF d] by (simp add: dst_align_def)
  then have "dst st4 \<le> ROUND_UP (dst st4) (dst_align st4)" by (rule ROUND_UP_ge)
  with dump_bss_Inr(4)[OF d a3] show "T + unat (bss_size info) \<le> dst st'"
    unfolding e o T_def by (simp add: ROUND_UP_DST_def)
  from dump_bss_Inr(3)[OF d]
  show "take (unat (bss_size info)) (drop T (bytes (out st')))
             = proc_bytes proc (bss_start info) (unat (bss_size info))"
    unfolding e o T_def by (simp add: ROUND_UP_DST_def)
qed

lemma same_but_refl: "same_but own xs xs"
  by (simp add: same_but_def)

lemma same_but_trans: "same_but own xs ys \<Longrightarrow> same_but own ys zs \<Longrightarrow> same_but own xs zs"
  by (simp add: same_but_def)

lemma same_but_upd:
  assumes "core e = core (xs ! i)" and "\<not> own i \<Longrightarrow> placed e = placed (xs ! i)"
  shows "same_but own xs (xs[i := e])"
proof (cases "i < length xs")
  case True
  with assms show ?thesis by (auto simp: same_but_def nth_list_update)
next
  case False
  then show ?thesis by (simp add: same_but_def)
qed

lemma core_upd [simp]:
  "core (s\<lparr> PointerToRawData := p \<rparr>) = core s"
  "core (s\<lparr> SizeOfRawData := z \<rparr>) = core s"
  "core (s\<lparr> Characteristics := c \<rparr>) = core s"
  "core (s\<lparr> PointerToLinenumbers := l \<rparr>) = core s"
  by (simp_all add: core_def)

lemma placed_upd [simp]:
  "placed (s\<lparr> PointerToRawData := p \<rparr>) = placed s"
  "placed (s\<lparr> PointerToLinenumbers := l \<rparr>) = placed s"
  by (simp_all add: placed_def)

lemma set_dst_section_same_but:
  assumes "core e = core (dst_section st i)" and "\<not> own i \<Longrightarrow> placed e = placed (dst_section st i)"
  shows "same_but own (sections (out st)) (sections (out (set_dst_section i e st)))"
  using assms unfolding set_dst_section_def dst_section_def
  by (simp add: same_but_upd)

lemma dump_bss_same_but:
  assumes r: "dump_bss msg proc start sz i dst_save st = Inr st'" and o: "own i"
  shows "same_but own (sections (out st)) (sections (out st'))"
proof -
  let ?st = "st\<lparr> dst := dst_save + unat (RVA_TO_SECTION_OFFSET (PTR_TO_RVA proc start)
                                       (dst_section st i)) \<rparr>"
  from r obtain st1 where
    c: "COPY_PROC_CHUNK msg proc start (unat sz) ?st = Inr st1"
    unfolding dump_bss_def by (auto simp: seq_def split: sum.splits)
  define a1 where "a1 = ROUND_UP_DST st1"
  define a2 where "a2 = set_dst_section i
                  ((dst_section a1 i)\<lparr> PointerToRawData := of_nat dst_save \<rparr>) a1"
  define a3 where "a3 = a2\<lparr> dst := max (dst a2)
                               (dst_save + unat (SizeOfRawData (dst_section a2 i))) \<rparr>"
  define a4 where "a4 = set_dst_section i
                  ((dst_section a3 i)\<lparr> SizeOfRawData := of_nat (dst a3 - dst_save) \<rparr>) a3"
  define a5 where "a5 = set_dst_section i
                  ((dst_section a4 i)\<lparr> Characteristics :=
                     Characteristics (dst_section a4 i)
                       AND NOT IMAGE_SCN_CNT_UNINITIALIZED_DATA \<rparr>) a4"
  define a6 where "a6 = set_dst_section i
                  ((dst_section a5 i)\<lparr> Characteristics :=
                     Characteristics (dst_section a5 i)
                       OR IMAGE_SCN_CNT_INITIALIZED_DATA \<rparr>) a5"
  from r have e: "st' = a6"
    unfolding dump_bss_def c seq_Inr Let_def a6_def a5_def a4_def a3_def a2_def a1_def
    by simp
  have 1: "sections (out a1) = sections (out st)"
    unfolding a1_def using COPY_PROC_CHUNK_kept(4)[OF c] by (simp add: ROUND_UP_DST_def)
  have 2: "same_but own (sections (out a1)) (sections (out a2))"
    unfolding a2_def by (rule set_dst_section_same_but) (simp_all add: o)
  have 3: "sections (out a3) = sections (out a2)" by (simp add: a3_def)
  have 4: "same_but own (sections (out a3)) (sections (out a4))"
    unfolding a4_def by (rule set_dst_section_same_but) (simp_all add: o)
  have 5: "same_but own (sections (out a4)) (sections (out a5))"
    unfolding a5_def by (rule set_dst_section_same_but) (simp_all add: o)
  have 6: "same_but own (sections (out a5)) (sections (out a6))"
    unfolding a6_def by (rule set_dst_section_same_but) (simp_all add: o)
  from 2 4 5 6 show ?thesis
    unfolding e 1[symmetric] 3 by (blast intro: same_but_trans)
qed

lemma same_but_length: "same_but own xs xs' \<Longrightarrow> length xs' = length xs"
  by (simp add: same_but_def)

lemma copy_section_fields:
  assumes r: "copy_section proc info f i st = Inr st'"
  shows "same_but (bss_owner info) (sections (out st)) (sections (out st'))"
    and "nt (out st') = nt (out st)"
    and "e_magic (out st') = e_magic (out st)" and "e_lfanew (out st') = e_lfanew (out st)"
proof -
  let ?own = "bss_owner info"
  let ?st0 = "if PointerToRawData (dst_section st i) \<noteq> 0
        then set_dst_section i ((dst_section st i)\<lparr> PointerToRawData := of_nat (dst st) \<rparr>) st
        else st"
  from copy_section_steps[OF r] obtain st1 st2 st3 st4 st5 where
    s1: "COPY_CHUNK (CopyingRawData i) f
       (unat (PointerToRawData (sections (mapping f) ! i)))
       (unat (SizeOfRawData (sections (mapping f) ! i))) ?st0 = Inr st1"
    and s2: "ROUND_UP_DST_AND_ZERO st1 = Inr st2"
    and s3: "(if Some i = data_section info then dump_data proc info i (dst st) st2 else Inr st2)
       = Inr st3"
    and s4: "(if Some i = bss_section info
      then dump_bss DumpingBssData proc (bss_start info) (bss_size info) i (dst st) st3
      else Inr st3) = Inr st4"
    and s5: "(if Some i = bss_section_static info
      then dump_bss DumpingStaticBssData proc
             (bss_start_static info) (bss_size_static info) i (dst st) st4
      else Inr st4) = Inr st5"
    and e: "st' = ROUND_UP_DST st5"
    by blast
  have b0: "same_but ?own (sections (out st)) (sections (out ?st0))"
  proof (cases "PointerToRawData (dst_section st i) \<noteq> 0")
    case True
    have "same_but ?own (sections (out st))
            (sections (out (set_dst_section i
               ((dst_section st i)\<lparr> PointerToRawData := of_nat (dst st) \<rparr>) st)))"
      by (rule set_dst_section_same_but) simp_all
    with True show ?thesis by simp
  next
    case False
    then show ?thesis by (simp add: same_but_refl)
  qed
  have h0: "nt (out ?st0) = nt (out st)" "e_magic (out ?st0) = e_magic (out st)"
    "e_lfanew (out ?st0) = e_lfanew (out st)"
    by (simp_all add: set_dst_section_def)
  note k1 = COPY_CHUNK_kept[OF s1]
  note k2 = ROUND_UP_DST_AND_ZERO_kept[OF s2]
  have b2: "same_but ?own (sections (out st)) (sections (out st2))"
    and h2: "nt (out st2) = nt (out st)" "e_magic (out st2) = e_magic (out st)"
      "e_lfanew (out st2) = e_lfanew (out st)"
    unfolding k2(4-7) k1(4-7) using b0 h0 by simp_all
  have b3: "same_but ?own (sections (out st)) (sections (out st3))"
    and h3: "nt (out st3) = nt (out st)" "e_magic (out st3) = e_magic (out st)"
      "e_lfanew (out st3) = e_lfanew (out st)"
    using s3 b2 h2 by (auto simp: dump_data_Inr split: if_splits)
  have b4: "same_but ?own (sections (out st)) (sections (out st4))"
    and h4: "nt (out st4) = nt (out st)" "e_magic (out st4) = e_magic (out st)"
      "e_lfanew (out st4) = e_lfanew (out st)"
  proof -
    show "same_but ?own (sections (out st)) (sections (out st4))"
    proof (cases "Some i = bss_section info")
      case True
      with s4 have d: "dump_bss DumpingBssData proc (bss_start info) (bss_size info) i (dst st) st3
          = Inr st4" by simp
      from True have "?own i" by (simp add: bss_owner_def)
      from same_but_trans[OF b3 dump_bss_same_but[where own="bss_owner info", OF d this]] show ?thesis .
    next
      case False
      with s4 b3 show ?thesis by simp
    qed
    show "nt (out st4) = nt (out st)" "e_magic (out st4) = e_magic (out st)"
      "e_lfanew (out st4) = e_lfanew (out st)"
      using s4 h3 by (auto simp: dump_bss_Inr split: if_splits)
  qed
  have b5: "same_but ?own (sections (out st)) (sections (out st5))"
    and h5: "nt (out st5) = nt (out st)" "e_magic (out st5) = e_magic (out st)"
      "e_lfanew (out st5) = e_lfanew (out st)"
  proof -
    show "same_but ?own (sections (out st)) (sections (out st5))"
    proof (cases "Some i = bss_section_static info")
      case True
      with s5 have d: "dump_bss DumpingStaticBssData proc
             (bss_start_static info) (bss_size_static info) i (dst st) st4
          = Inr st5" by simp
      from True have "?own i" by (simp add: bss_owner_def)
      from same_but_trans[OF b4 dump_bss_same_but[where own="bss_owner info", OF d this]] show ?thesis .
    next
      case False
      with s5 b4 show ?thesis by simp
    qed
    show "nt (out st5) = nt (out st)" "e_magic (out st5) = e_magic (out st)"
      "e_lfanew (out st5) = e_lfanew (out st)"
      using s5 h4 by (auto simp: dump_bss_Inr split: if_splits)
  qed
  from b5 h5 show "same_but ?own (sections (out st)) (sections (out st'))"
    "nt (out st') = nt (out st)"
    "e_magic (out st') = e_magic (out st)" "e_lfanew (out st') = e_lfanew (out st)"
    unfolding e by (simp_all add: ROUND_UP_DST_def)
qed


lemma copy_sections_kept:
  "copy_sections proc info f js st = Inr st' \<Longrightarrow> 0 < dst_align st \<Longrightarrow> kept (dst st) st st'"
proof (induction js arbitrary: st)
  case Nil
  then show ?case by (simp add: kept_refl)
next
  case (Cons j js)
  from seq_InrE[OF Cons.prems(1)[unfolded copy_sections.simps]] obtain st1 where
    s1: "copy_section proc info f j st = Inr st1"
    and r: "copy_sections proc info f js st1 = Inr st'" by blast
  note k1 = copy_section_kept[OF s1 Cons.prems(2)]
  have "0 < dst_align st1" using Cons.prems(2) kept_align[OF k1] by simp
  from kept_trans[OF k1 Cons.IH[OF r this] kept_dst[OF k1]] show ?case .
qed

lemma copy_sections_bss_dump:
  assumes static: "bss_section_static info = None" and bss: "bss_section info = Some k"
  shows "copy_sections proc info f js st = Inr st' \<Longrightarrow> 0 < dst_align st \<Longrightarrow> distinct js \<Longrightarrow>
     \<forall>j\<in>set js. j < length (sections (out st)) \<Longrightarrow>
     (if k \<in> set js
      then \<exists>t. filter is_bss_dump (chunks st') = filter is_bss_dump (chunks st) @
                  [\<lparr> message = DumpingBssData, source = unat (bss_start info), target = t,
                      count = unat (bss_size info) \<rparr>] \<and>
               t + unat (bss_size info) \<le> dst st' \<and>
               take (unat (bss_size info)) (drop t (bytes (out st')))
                 = proc_bytes proc (bss_start info) (unat (bss_size info))
      else filter is_bss_dump (chunks st') = filter is_bss_dump (chunks st))"
proof (induction js arbitrary: st)
  case Nil
  then show ?case by simp
next
  case (Cons j js)
  from seq_InrE[OF Cons.prems(1)[unfolded copy_sections.simps]] obtain st1 where
    s1: "copy_section proc info f j st = Inr st1"
    and r: "copy_sections proc info f js st1 = Inr st'" by blast
  note k1 = copy_section_kept[OF s1 Cons.prems(2)]
  have a1: "0 < dst_align st1" using Cons.prems(2) kept_align[OF k1] by simp
  have d: "distinct js" and nj: "j \<notin> set js" using Cons.prems(3) by simp_all
  have l1: "length (sections (out st1)) = length (sections (out st))"
    using copy_section_fields(1)[OF s1] by (rule same_but_length)
  have b1: "\<forall>j\<in>set js. j < length (sections (out st1))"
    unfolding l1 using Cons.prems(4) by simp
  have j: "j < length (sections (out st))" using Cons.prems(4) by simp
  have ns: "bss_section_static info \<noteq> Some j" using static by simp
  note c1 = copy_section_bss_dump[OF s1 Cons.prems(2) ns j]
  note IH = Cons.IH[OF r a1 d b1]
  show ?case
  proof (cases "j = k")
    case True
    with nj have nk: "k \<notin> set js" by simp
    let ?T = "dst st + unat (RVA_TO_SECTION_OFFSET (PTR_TO_RVA proc (bss_start info))
                               (sections (out st) ! j))"
    have o: "Some j = bss_section info" using True bss by simp
    from IH nk have c: "filter is_bss_dump (chunks st') = filter is_bss_dump (chunks st1)"
      by simp
    note k2 = copy_sections_kept[OF r a1]
    have le: "?T + unat (bss_size info) \<le> dst st'"
      using c1(2)[OF o] kept_dst[OF k2] by linarith
    have sg: "take (unat (bss_size info)) (drop ?T (bytes (out st')))
                 = proc_bytes proc (bss_start info) (unat (bss_size info))"
      using kept_seg[OF k2 c1(2)[OF o]] c1(3)[OF o] by simp
    from c c1(1) o le sg show ?thesis using True by auto
  next
    case False
    then have "Some j \<noteq> bss_section info" using bss by simp
    with c1(1) have eq: "filter is_bss_dump (chunks st1) = filter is_bss_dump (chunks st)"
      by simp
    from IH show ?thesis unfolding eq using False by simp
  qed
qed

lemma kept_take: "kept n st st' \<Longrightarrow> take n (bytes (out st')) = take n (bytes (out st))"
  by (simp add: kept_def)

lemma copy_prefix:
  assumes r: "COPY_CHUNK msg f src n st = Inr st'" and d: "dst st = src"
    and p: "take src (bytes (out st)) = take src (bytes (mapping f))"
  shows "take (src + n) (bytes (out st')) = take (src + n) (bytes (mapping f))"
proof -
  note k = COPY_CHUNK_kept[OF r]
  have "take (src + n) (bytes (out st'))
          = take src (bytes (out st')) @ take n (drop src (bytes (out st')))"
    by (rule take_add)
  also have "\<dots> = take src (bytes (mapping f)) @ take n (drop src (bytes (mapping f)))"
    using kept_take[OF k(1)] k(3) p unfolding d by simp
  also have "\<dots> = take (src + n) (bytes (mapping f))"
    by (rule take_add[symmetric])
  finally show ?thesis .
qed

lemma copy_headers_Inr:
  assumes r: "copy_headers f st = Inr st'" and d0: "dst st = 0"
  shows "sections (out st') = sections (mapping f)"
    and "nt (out st') = (nt (mapping f))\<lparr> SizeOfHeaders := of_nat (dst st') \<rparr>"
    and "e_magic (out st') = e_magic (mapping f)" and "e_lfanew (out st') = e_lfanew (mapping f)"
    and "filter is_bss_dump (chunks st') = filter is_bss_dump (chunks st)"
    and "dst st' = ROUND_UP (header_end (mapping f)) (unat (FileAlignment (nt (mapping f))))"
    and "take (header_end (mapping f)) (bytes (out st'))
           = take (header_end (mapping f)) (bytes (mapping f))"
    and "take (dst st' - header_end (mapping f)) (drop (header_end (mapping f)) (bytes (out st')))
           = replicate (dst st' - header_end (mapping f)) 0"
    and "length (bytes (out st')) = length (bytes (out st))"
proof -
  let ?m = "mapping f"
  let ?e = "unat (e_lfanew ?m)"
  let ?n = "OPTIONAL_HEADER_OFFSET + unat (SizeOfOptionalHeader (nt ?m))"
  let ?t = "length (sections ?m) * IMAGE_SIZEOF_SECTION_HEADER"
  have he: "header_end ?m = ?e + ?n + ?t" by (simp add: header_end_def)
  note r0 = r[unfolded copy_headers_def Let_def]
  from seq_InrE[OF r0] obtain st1 where
    s1: "COPY_CHUNK CopyingDOSHeader f 0 ?e st = Inr st1"
    and r1: "seq (COPY_CHUNK CopyingNTHeader f ?e ?n
             (st1\<lparr> out := (out st1)\<lparr> e_magic := e_magic ?m, e_lfanew := e_lfanew ?m \<rparr> \<rparr>)) (\<lambda>st.
      seq (COPY_CHUNK CopyingSectionTable f (?e + ?n) ?t
             (st\<lparr> out := (out st)\<lparr> nt := nt ?m \<rparr> \<rparr>)) (\<lambda>st.
      seq (ROUND_UP_DST_AND_ZERO (st\<lparr> out := (out st)\<lparr> sections := sections ?m \<rparr> \<rparr>)) (\<lambda>st.
        Inr (st\<lparr> out := (out st)\<lparr> nt := (nt (out st))\<lparr> SizeOfHeaders := of_nat (dst st) \<rparr> \<rparr> \<rparr>))))
        = Inr st'"
    by blast
  let ?st1 = "st1\<lparr> out := (out st1)\<lparr> e_magic := e_magic ?m, e_lfanew := e_lfanew ?m \<rparr> \<rparr>"
  from seq_InrE[OF r1] obtain st2 where
    s2: "COPY_CHUNK CopyingNTHeader f ?e ?n ?st1 = Inr st2"
    and r2: "seq (COPY_CHUNK CopyingSectionTable f (?e + ?n) ?t
             (st2\<lparr> out := (out st2)\<lparr> nt := nt ?m \<rparr> \<rparr>)) (\<lambda>st.
      seq (ROUND_UP_DST_AND_ZERO (st\<lparr> out := (out st)\<lparr> sections := sections ?m \<rparr> \<rparr>)) (\<lambda>st.
        Inr (st\<lparr> out := (out st)\<lparr> nt := (nt (out st))\<lparr> SizeOfHeaders := of_nat (dst st) \<rparr> \<rparr> \<rparr>)))
        = Inr st'"
    by blast
  let ?st2 = "st2\<lparr> out := (out st2)\<lparr> nt := nt ?m \<rparr> \<rparr>"
  from seq_InrE[OF r2] obtain st3 where
    s3: "COPY_CHUNK CopyingSectionTable f (?e + ?n) ?t ?st2 = Inr st3"
    and r3: "seq (ROUND_UP_DST_AND_ZERO (st3\<lparr> out := (out st3)\<lparr> sections := sections ?m \<rparr> \<rparr>)) (\<lambda>st.
        Inr (st\<lparr> out := (out st)\<lparr> nt := (nt (out st))\<lparr> SizeOfHeaders := of_nat (dst st) \<rparr> \<rparr> \<rparr>))
        = Inr st'"
    by blast
  let ?st3 = "st3\<lparr> out := (out st3)\<lparr> sections := sections ?m \<rparr> \<rparr>"
  from seq_InrE[OF r3] obtain st4 where
    s4: "ROUND_UP_DST_AND_ZERO ?st3 = Inr st4"
    and e: "st' = st4\<lparr> out := (out st4)\<lparr> nt := (nt (out st4))\<lparr> SizeOfHeaders := of_nat (dst st4) \<rparr> \<rparr> \<rparr>"
    by auto
  note k1 = COPY_CHUNK_kept[OF s1]
  note k2 = COPY_CHUNK_kept[OF s2]
  note k3 = COPY_CHUNK_kept[OF s3]
  note k4 = ROUND_UP_DST_AND_ZERO_kept[OF s4]
  have d1: "dst st1 = ?e" using k1(2) d0 by simp
  have d2: "dst st2 = ?e + ?n" using k2(2) d1 by simp
  have d3: "dst st3 = header_end ?m" using k3(2) d2 he by simp
  have p1: "take (0 + ?e) (bytes (out st1)) = take (0 + ?e) (bytes ?m)"
    using s1 d0 by (rule copy_prefix) simp
  have p2: "take (?e + ?n) (bytes (out st2)) = take (?e + ?n) (bytes ?m)"
    using s2 by (rule copy_prefix) (use d1 p1 in simp_all)
  have p3: "take (?e + ?n + ?t) (bytes (out st3)) = take (?e + ?n + ?t) (bytes ?m)"
    using s3 by (rule copy_prefix) (use d2 p2 in simp_all)
  show "sections (out st') = sections ?m" unfolding e using k4(4) by simp
  show "nt (out st') = (nt ?m)\<lparr> SizeOfHeaders := of_nat (dst st') \<rparr>"
    unfolding e using k4(5) k3(5) by simp
  show "e_magic (out st') = e_magic ?m" unfolding e using k4(6) k3(6) k2(6) by simp
  show "e_lfanew (out st') = e_lfanew ?m" unfolding e using k4(7) k3(7) k2(7) by simp
  show "filter is_bss_dump (chunks st') = filter is_bss_dump (chunks st)"
    unfolding e using k4(8) k3(8) k2(8) k1(8) by (simp add: is_bss_dump_def)
  have a3: "dst_align ?st3 = unat (FileAlignment (nt ?m))"
    using k3(5) by (simp add: dst_align_def)
  show d4: "dst st' = ROUND_UP (header_end ?m) (unat (FileAlignment (nt ?m)))"
    unfolding e using k4(2) a3 d3 by simp
  have "take (header_end ?m) (bytes (out st4)) = take (header_end ?m) (bytes (out ?st3))"
    using kept_take[OF k4(1)] d3 by simp
  with p3 show "take (header_end ?m) (bytes (out st')) = take (header_end ?m) (bytes ?m)"
    unfolding e he by simp
  from k4(3) show "take (dst st' - header_end ?m) (drop (header_end ?m) (bytes (out st')))
           = replicate (dst st' - header_end ?m) 0"
    unfolding e using d3 by simp
  show "length (bytes (out st')) = length (bytes (out st))"
    unfolding e using kept_length[OF k4(1)] kept_length[OF k3(1)] kept_length[OF k2(1)]
      kept_length[OF k1(1)] by simp
qed

lemma copy_remainder_Inr:
  assumes r: "copy_remainder f st = Inr st'"
  shows "kept (dst st) st st'"
    and "sections (out st') = sections (out st)" and "nt (out st') = nt (out st)"
    and "e_magic (out st') = e_magic (out st)" and "e_lfanew (out st') = e_lfanew (out st)"
    and "filter is_bss_dump (chunks st') = filter is_bss_dump (chunks st)"
    and "dst st' = dst st + remainder_size f"
    and "(\<exists>s\<in>set (sections (mapping f)). PointerToRawData s \<noteq> 0) \<Longrightarrow>
         take (remainder_size f) (drop (dst st) (bytes (out st')))
           = take (remainder_size f) (drop (unat (remainder_from f)) (bytes (mapping f)))"
proof -
  from seq_InrE[OF r[unfolded copy_remainder_def Let_def]] obtain sec where
    b: "back_to_raw (rev (sections (mapping f))) = Inr sec"
    and c: "COPY_CHUNK CopyingRemainder f
              (unat (ROUND_UP_W (PointerToRawData sec + SizeOfRawData sec)
                                (FileAlignment (nt (mapping f)))))
              (unat (size_bytes f - ROUND_UP_W (PointerToRawData sec + SizeOfRawData sec)
                                (FileAlignment (nt (mapping f))))) st = Inr st'"
    by blast
  note k = COPY_CHUNK_kept[OF c]
  show "kept (dst st) st st'" by (rule k(1))
  show "sections (out st') = sections (out st)" "nt (out st') = nt (out st)"
    "e_magic (out st') = e_magic (out st)" "e_lfanew (out st') = e_lfanew (out st)"
    by (rule k)+
  show "filter is_bss_dump (chunks st') = filter is_bss_dump (chunks st)"
    unfolding k(8) by (simp add: is_bss_dump_def)
  have rs: "remainder_size f = unat (size_bytes f - ROUND_UP_W (PointerToRawData sec + SizeOfRawData sec)
                                (FileAlignment (nt (mapping f))))"
    and rf: "remainder_from f = ROUND_UP_W (PointerToRawData sec + SizeOfRawData sec)
                                (FileAlignment (nt (mapping f)))"
    if "\<exists>s\<in>set (sections (mapping f)). PointerToRawData s \<noteq> 0"
    using b back_to_raw_rev[OF that]
    by (simp_all add: remainder_size_def remainder_from_def)
  show "dst st' = dst st + remainder_size f"
  proof (cases "\<exists>s\<in>set (sections (mapping f)). PointerToRawData s \<noteq> 0")
    case True
    from k(2) show ?thesis unfolding rs[OF True] .
  next
    case False
    then have "filter (\<lambda>s. PointerToRawData s \<noteq> 0) (rev (sections (mapping f))) = []"
      by (simp add: filter_empty_conv)
    have "back_to_raw ss = Inl Undefined" if "\<forall>s\<in>set ss. PointerToRawData s = 0" for ss
      using that by (induction ss) simp_all
    from this[of "rev (sections (mapping f))"] False b show ?thesis by simp
  qed
  assume raw: "\<exists>s\<in>set (sections (mapping f)). PointerToRawData s \<noteq> 0"
  from k(3) show "take (remainder_size f) (drop (dst st) (bytes (out st')))
           = take (remainder_size f) (drop (unat (remainder_from f)) (bytes (mapping f)))"
    unfolding rs[OF raw] rf[OF raw] .
qed

lemma nth_overwrite:
  assumes "at + length bs \<le> length buf" and "x < at \<or> at + length bs \<le> x"
  shows "overwrite at bs buf ! x = buf ! x"
proof (cases "x < at")
  case True
  with assms(1) show ?thesis by (simp add: overwrite_def nth_append)
next
  case False
  with assms(2) have ge: "at + length bs \<le> x" by simp
  then have n1: "\<not> x < at" and n2: "\<not> x - at < length bs" by simp_all
  have la: "length (take at buf) = at" using assms(1) by simp
  have "overwrite at bs buf ! x = (bs @ drop (at + length bs) buf) ! (x - at)"
    unfolding overwrite_def nth_append la using n1 by simp
  also have "\<dots> = drop (at + length bs) buf ! (x - at - length bs)"
    unfolding nth_append using n2 by simp
  also have "\<dots> = buf ! x"
    using assms(1) ge by simp
  finally show ?thesis .
qed

lemma length_le32 [simp]: "length (le32 v) = 4"
  by (simp add: le32_def)

lemma adjust_debug_entries_Inr:
  "adjust_debug_entries f n at st = Inr st' \<Longrightarrow>
     dst st' = dst st \<and> chunks st' = chunks st \<and> sections (out st') = sections (out st) \<and>
     nt (out st') = nt (out st) \<and>
     e_magic (out st') = e_magic (out st) \<and> e_lfanew (out st') = e_lfanew (out st) \<and>
     length (bytes (out st')) = length (bytes (out st)) \<and>
     (\<forall>x. \<not> debug_field at n x \<longrightarrow> bytes (out st') ! x = bytes (out st) ! x)"
proof (induction n arbitrary: at st)
  case 0
  then show ?case by simp
next
  case (Suc n)
  from Suc.prems obtain bs where
    rd: "read_bytes (at + DEBUG_POINTER_TO_RAW_DATA) 4 (bytes (out st)) = Some bs"
    by (auto split: option.splits)
  show ?case
  proof (cases "rd32 bs = 0")
    case True
    with Suc.prems rd have
      "adjust_debug_entries f n (at + IMAGE_SIZEOF_DEBUG_DIRECTORY) st = Inr st'" by simp
    from Suc.IH[OF this] show ?thesis by simp
  next
    case False
    with Suc.prems rd obtain v b where
      w: "write_bytes (at + DEBUG_POINTER_TO_RAW_DATA) (le32 v) (bytes (out st)) = Some b"
      and r: "adjust_debug_entries f n (at + IMAGE_SIZEOF_DEBUG_DIRECTORY)
                (st\<lparr> out := (out st)\<lparr> bytes := b \<rparr> \<rparr>) = Inr st'"
      by (auto simp: seq_def split: sum.splits option.splits)
    from w have fit: "at + DEBUG_POINTER_TO_RAW_DATA + length (le32 v) \<le> length (bytes (out st))"
      and b: "b = overwrite (at + DEBUG_POINTER_TO_RAW_DATA) (le32 v) (bytes (out st))"
      by (auto simp: write_bytes_def overwrite_def le32_def split: if_splits)
    have lb: "length b = length (bytes (out st))"
      unfolding b using fit by (simp add: length_overwrite del: length_le32)
    have nb: "b ! x = bytes (out st) ! x"
      if "\<not> (at + DEBUG_POINTER_TO_RAW_DATA \<le> x \<and> x < at + DEBUG_POINTER_TO_RAW_DATA + 4)" for x
      unfolding b using fit that by (intro nth_overwrite) auto
    from Suc.IH[OF r] lb nb show ?thesis by simp
  qed
qed


lemma patch_offsets_Inr:
  assumes r: "patch_offsets f st = Inr st'"
  shows "dst st' = dst st" and "chunks st' = chunks st"
    and "e_magic (out st') = e_magic (out st)" and "e_lfanew (out st') = e_lfanew (out st)"
    and "map (\<lambda>s. s\<lparr> PointerToLinenumbers := 0 \<rparr>) (sections (out st'))
           = map (\<lambda>s. s\<lparr> PointerToLinenumbers := 0 \<rparr>) (sections (out st))"
    and "(nt (out st'))\<lparr> SizeOfInitializedData := 0, SizeOfUninitializedData := 0,
                         PointerToSymbolTable := 0 \<rparr>
           = (nt (out st))\<lparr> SizeOfInitializedData := 0, SizeOfUninitializedData := 0,
                            PointerToSymbolTable := 0 \<rparr>"
    and "length (bytes (out st')) = length (bytes (out st))"
    and "\<forall>x. \<not> debug_fields (out st') x \<longrightarrow> bytes (out st') ! x = bytes (out st) ! x"
proof -
  let ?st0 = "st\<lparr> out := (out st)\<lparr> nt := (nt (out st))\<lparr> SizeOfInitializedData := 0 \<rparr> \<rparr> \<rparr>"
  let ?st1 = "?st0\<lparr> out := (out ?st0)\<lparr> nt := (nt (out ?st0))\<lparr> SizeOfUninitializedData := 0 \<rparr> \<rparr> \<rparr>"
  note r0 = r[unfolded patch_offsets_def Let_def]
  from seq_InrE[OF r0] obtain st2 where
    p2: "patch_sections f [0..<length (sections (out ?st1))] ?st1 = Inr st2"
    and r2: "seq (ADJUST_OFFSET (PointerToSymbolTable (nt (out st2)))
             (sections (mapping f)) (sections (out st2))) (\<lambda>v.
        case rva_to_section (DebugVirtualAddress
               (nt (out (st2\<lparr> out := (out st2)\<lparr> nt := (nt (out st2))\<lparr> PointerToSymbolTable := v \<rparr> \<rparr> \<rparr>))))
               (sections (out (st2\<lparr> out := (out st2)\<lparr> nt := (nt (out st2))\<lparr> PointerToSymbolTable := v \<rparr> \<rparr> \<rparr>))) of
          None \<Rightarrow> Inr (st2\<lparr> out := (out st2)\<lparr> nt := (nt (out st2))\<lparr> PointerToSymbolTable := v \<rparr> \<rparr> \<rparr>)
        | Some k \<Rightarrow>
            adjust_debug_entries f
              (unat (DebugSize (nt (out (st2\<lparr> out := (out st2)\<lparr> nt := (nt (out st2))\<lparr> PointerToSymbolTable := v \<rparr> \<rparr> \<rparr>))))
                 div IMAGE_SIZEOF_DEBUG_DIRECTORY)
              (unat (RVA_TO_OFFSET (DebugVirtualAddress
                 (nt (out (st2\<lparr> out := (out st2)\<lparr> nt := (nt (out st2))\<lparr> PointerToSymbolTable := v \<rparr> \<rparr> \<rparr>))))
                 (dst_section (st2\<lparr> out := (out st2)\<lparr> nt := (nt (out st2))\<lparr> PointerToSymbolTable := v \<rparr> \<rparr> \<rparr>) k)))
              (st2\<lparr> out := (out st2)\<lparr> nt := (nt (out st2))\<lparr> PointerToSymbolTable := v \<rparr> \<rparr> \<rparr>)) = Inr st'"
    by blast
  from seq_InrE[OF r2] obtain v where
    r3: "(case rva_to_section (DebugVirtualAddress
               (nt (out (st2\<lparr> out := (out st2)\<lparr> nt := (nt (out st2))\<lparr> PointerToSymbolTable := v \<rparr> \<rparr> \<rparr>))))
               (sections (out (st2\<lparr> out := (out st2)\<lparr> nt := (nt (out st2))\<lparr> PointerToSymbolTable := v \<rparr> \<rparr> \<rparr>))) of
          None \<Rightarrow> Inr (st2\<lparr> out := (out st2)\<lparr> nt := (nt (out st2))\<lparr> PointerToSymbolTable := v \<rparr> \<rparr> \<rparr>)
        | Some k \<Rightarrow>
            adjust_debug_entries f
              (unat (DebugSize (nt (out (st2\<lparr> out := (out st2)\<lparr> nt := (nt (out st2))\<lparr> PointerToSymbolTable := v \<rparr> \<rparr> \<rparr>))))
                 div IMAGE_SIZEOF_DEBUG_DIRECTORY)
              (unat (RVA_TO_OFFSET (DebugVirtualAddress
                 (nt (out (st2\<lparr> out := (out st2)\<lparr> nt := (nt (out st2))\<lparr> PointerToSymbolTable := v \<rparr> \<rparr> \<rparr>))))
                 (dst_section (st2\<lparr> out := (out st2)\<lparr> nt := (nt (out st2))\<lparr> PointerToSymbolTable := v \<rparr> \<rparr> \<rparr>) k)))
              (st2\<lparr> out := (out st2)\<lparr> nt := (nt (out st2))\<lparr> PointerToSymbolTable := v \<rparr> \<rparr> \<rparr>)) = Inr st'"
    by blast
  let ?st3 = "st2\<lparr> out := (out st2)\<lparr> nt := (nt (out st2))\<lparr> PointerToSymbolTable := v \<rparr> \<rparr> \<rparr>"
  note f2 = patch_sections_frame[OF p2]
  have g: "dst st' = dst ?st3 \<and> chunks st' = chunks ?st3 \<and>
     sections (out st') = sections (out ?st3) \<and> nt (out st') = nt (out ?st3) \<and>
     e_magic (out st') = e_magic (out ?st3) \<and> e_lfanew (out st') = e_lfanew (out ?st3) \<and>
     length (bytes (out st')) = length (bytes (out ?st3)) \<and>
     (\<forall>x. \<not> debug_fields (out ?st3) x \<longrightarrow> bytes (out st') ! x = bytes (out ?st3) ! x)"
  proof (cases "rva_to_section (DebugVirtualAddress (nt (out ?st3))) (sections (out ?st3))")
    case None
    with r3 show ?thesis by simp
  next
    case (Some k)
    with r3 have "adjust_debug_entries f
              (unat (DebugSize (nt (out ?st3))) div IMAGE_SIZEOF_DEBUG_DIRECTORY)
              (unat (RVA_TO_OFFSET (DebugVirtualAddress (nt (out ?st3))) (dst_section ?st3 k)))
              ?st3 = Inr st'" by simp
    from adjust_debug_entries_Inr[OF this] Some show ?thesis
      by (simp add: debug_fields_def dst_section_def)
  qed
  have n3: "(nt (out ?st3))\<lparr> SizeOfInitializedData := 0, SizeOfUninitializedData := 0,
                     PointerToSymbolTable := 0 \<rparr>
       = (nt (out st))\<lparr> SizeOfInitializedData := 0, SizeOfUninitializedData := 0,
                        PointerToSymbolTable := 0 \<rparr>"
    using arg_cong[OF f2[THEN conjunct2, THEN conjunct2, THEN conjunct2, THEN conjunct2,
        THEN conjunct2, THEN conjunct2], of "\<lambda>h. h\<lparr> PointerToSymbolTable := 0 \<rparr>"] by simp
  have s': "sections (out st') = sections (out ?st3)" and n': "nt (out st') = nt (out ?st3)"
    using g by simp_all
  have df: "debug_fields (out st') x = debug_fields (out ?st3) x" for x
    unfolding debug_fields_def s' n' ..
  from g f2 show "dst st' = dst st" "chunks st' = chunks st"
    "e_magic (out st') = e_magic (out st)" "e_lfanew (out st') = e_lfanew (out st)"
    "length (bytes (out st')) = length (bytes (out st))"
    by simp_all
  from g f2 show "map (\<lambda>s. s\<lparr> PointerToLinenumbers := 0 \<rparr>) (sections (out st'))
           = map (\<lambda>s. s\<lparr> PointerToLinenumbers := 0 \<rparr>) (sections (out st))"
    by simp
  from g n3 show "(nt (out st'))\<lparr> SizeOfInitializedData := 0, SizeOfUninitializedData := 0,
                         PointerToSymbolTable := 0 \<rparr>
           = (nt (out st))\<lparr> SizeOfInitializedData := 0, SizeOfUninitializedData := 0,
                            PointerToSymbolTable := 0 \<rparr>"
    by simp
  from g f2 show "\<forall>x. \<not> debug_fields (out st') x \<longrightarrow> bytes (out st') ! x = bytes (out st) ! x"
    unfolding df by simp
qed

subsection \<open>The merged bss range\<close>

lemma get_section_info_overlap:
  assumes g: "get_section_info alpha proc f = Inr info"
    and x: "my_begbss proc \<le> x" "x < my_endbss proc"
      "my_begbss_static proc \<le> x" "x < my_endbss_static proc"
  shows "bss_section_static info = None"
proof -
  have ov: "bss_overlap alpha (my_begbss proc) (my_endbss proc - my_begbss proc)
              (my_begbss_static proc) (my_endbss_static proc - my_begbss_static proc)"
    using x by (auto simp: bss_overlap_def)
  from g show ?thesis
    unfolding get_section_info_def Let_def seq_def
    by (auto simp: ov split: if_splits sum.splits prod.splits)
qed

lemma copy_image_steps:
  assumes r: "copy_image proc info f p = Inr st"
  shows "\<exists>st1 st2. copy_headers f \<lparr> out = mapping p, dst = 0, chunks = [] \<rparr> = Inr st1 \<and>
     copy_sections proc info f [0..<length (sections (mapping f))] st1 = Inr st2 \<and>
     copy_remainder f st2 = Inr st"
proof -
  from seq_InrE[OF r[unfolded copy_image_def]] obtain st1 where
    s1: "copy_headers f \<lparr> out = mapping p, dst = 0, chunks = [] \<rparr> = Inr st1"
    and r1: "seq (copy_sections proc info f [0..<length (sections (mapping f))] st1)
               (\<lambda>st. copy_remainder f st) = Inr st"
    by blast
  from seq_InrE[OF r1] s1 show ?thesis by blast
qed

lemma copy_image_bss_dump:
  assumes r: "copy_image proc info f p = Inr st"
    and a: "0 < unat (FileAlignment (nt (mapping f)))"
    and static: "bss_section_static info = None" and bss: "bss_section info = Some k"
    and kl: "k < length (sections (mapping f))"
  shows "\<exists>t. filter is_bss_dump (chunks st) =
                  [\<lparr> message = DumpingBssData, source = unat (bss_start info), target = t,
                      count = unat (bss_size info) \<rparr>] \<and>
               t + unat (bss_size info) \<le> dst st \<and>
               take (unat (bss_size info)) (drop t (bytes (out st)))
                 = proc_bytes proc (bss_start info) (unat (bss_size info))"
proof -
  let ?st0 = "\<lparr> out = mapping p, dst = 0, chunks = [] \<rparr>"
  from copy_image_steps[OF r] obtain st1 st2 where
    s1: "copy_headers f ?st0 = Inr st1"
    and s2: "copy_sections proc info f [0..<length (sections (mapping f))] st1 = Inr st2"
    and s3: "copy_remainder f st2 = Inr st"
    by blast
  have d0: "dst ?st0 = 0" by simp
  note h = copy_headers_Inr[OF s1 d0]
  have a1: "0 < dst_align st1" using a h(2) by (simp add: dst_align_def)
  have c1: "filter is_bss_dump (chunks st1) = []" using h(5) by simp
  have b1: "\<forall>j\<in>set [0..<length (sections (mapping f))]. j < length (sections (out st1))"
    unfolding h(1) by simp
  have kin: "k \<in> set [0..<length (sections (mapping f))]" using kl by simp
  from copy_sections_bss_dump[OF static bss s2 a1 distinct_upt b1] kin obtain t where
    c2: "filter is_bss_dump (chunks st2) =
           [\<lparr> message = DumpingBssData, source = unat (bss_start info), target = t,
               count = unat (bss_size info) \<rparr>]"
    and le: "t + unat (bss_size info) \<le> dst st2"
    and sg: "take (unat (bss_size info)) (drop t (bytes (out st2)))
                 = proc_bytes proc (bss_start info) (unat (bss_size info))"
    unfolding c1 by auto
  note m = copy_remainder_Inr[OF s3]
  from kept_seg[OF m(1) le] sg have "take (unat (bss_size info)) (drop t (bytes (out st)))
                 = proc_bytes proc (bss_start info) (unat (bss_size info))" by simp
  moreover from le kept_dst[OF m(1)] have "t + unat (bss_size info) \<le> dst st" by linarith
  ultimately show ?thesis using c2 m(6) by auto
qed

lemma copy_executable_steps:
  assumes r: "copy_executable_and_dump_data proc info f p = Inr (out', log)"
  shows "\<exists>st st'. copy_image proc info f p = Inr st \<and> patch_offsets f st = Inr st' \<and>
     out' = p\<lparr> size_bytes := of_nat (dst st), mapping := out st' \<rparr> \<and> log = chunks st'"
proof -
  from seq_InrE[OF r[unfolded copy_executable_and_dump_data_def]] obtain st where
    s1: "copy_image proc info f p = Inr st"
    and r1: "seq (patch_offsets f st) (\<lambda>st'.
       Inr (p\<lparr> size_bytes := of_nat (dst st), mapping := out st' \<rparr>, chunks st')) = Inr (out', log)"
    by blast
  from seq_InrE[OF r1] s1 show ?thesis by auto
qed

lemma seg_nth:
  assumes "take m (drop t xs) = ys" and "length ys = m" and "n < m"
  shows "xs ! (t + n) = ys ! n"
proof -
  have "length (take m (drop t xs)) = m" unfolding assms(1) by (rule assms(2))
  then have "min m (length xs - t) = m" by simp
  with assms(3) have "t + n < length xs" by linarith
  then have "xs ! (t + n) = drop t xs ! n" by simp
  also have "\<dots> = take m (drop t xs) ! n" using assms(3) by simp
  finally show ?thesis unfolding assms(1) .
qed

lemma proc_bytes_nth: "n < m \<Longrightarrow> proc_bytes proc a m ! n = memory proc (a + of_nat n)"
  by (simp add: proc_bytes_def)

text \<open>
  C4.  When the two bss ranges share an address and the analysis and the dump
  complete: the analysis has merged them into one range, from the lower of the two
  starts to the higher of the two ends, and cleared the static section; the dump
  has copied exactly one chunk of bss data, that range, and none for the static
  range; and every byte of the range is in the new image at its place in the
  chunk (unless it is one the debug directory's \<open>PointerToRawData\<close> fields were
  patched over afterwards).
\<close>

theorem merged_bss_dumped_once:
  assumes ana: "get_section_info alpha proc f = Inr info"
    and x: "my_begbss proc \<le> x" "x < my_endbss proc"
      "my_begbss_static proc \<le> x" "x < my_endbss_static proc"
    and a: "0 < unat (FileAlignment (nt (mapping f)))"
    and run: "copy_executable_and_dump_data proc info f p_outfile = Inr (out', log)"
  shows "bss_start info = min (my_begbss proc) (my_begbss_static proc) \<and>
     bss_start info + bss_size info = max (my_endbss proc) (my_endbss_static proc) \<and>
     bss_section_static info = None \<and>
     (\<exists>t. filter is_bss_dump log =
             [\<lparr> message = DumpingBssData, source = unat (bss_start info), target = t,
                 count = unat (bss_size info) \<rparr>] \<and>
          (\<forall>n<unat (bss_size info). \<not> debug_fields (mapping out') (t + n) \<longrightarrow>
             bytes (mapping out') ! (t + n) = memory proc (bss_start info + of_nat n)))"
proof -
  from ana x have static: "bss_section_static info = None" by (rule get_section_info_overlap)
  from get_section_info_merged[OF ana static] obtain k where
    bss: "bss_section info = Some k"
    and r: "rva_to_section (PTR_TO_RVA proc (my_begbss proc)) (sections (mapping f)) = Some k"
    and st: "bss_start info = min (my_begbss proc) (my_begbss_static proc)"
    and sz: "bss_size info = max (my_endbss proc) (my_endbss_static proc)
                       - min (my_begbss proc) (my_begbss_static proc)"
    by blast
  from rva_to_section_from_Some[OF r[unfolded rva_to_section_def]]
  have kl: "k < length (sections (mapping f))" by simp
  from copy_executable_steps[OF run] obtain st1 st2 where
    s1: "copy_image proc info f p_outfile = Inr st1"
    and s2: "patch_offsets f st1 = Inr st2"
    and o: "out' = p_outfile\<lparr> size_bytes := of_nat (dst st1), mapping := out st2 \<rparr>"
    and l: "log = chunks st2"
    by blast
  from copy_image_bss_dump[OF s1 a static bss kl] obtain t where
    c: "filter is_bss_dump (chunks st1) =
                  [\<lparr> message = DumpingBssData, source = unat (bss_start info), target = t,
                      count = unat (bss_size info) \<rparr>]"
    and sg: "take (unat (bss_size info)) (drop t (bytes (out st1)))
                 = proc_bytes proc (bss_start info) (unat (bss_size info))"
    by blast
  note q = patch_offsets_Inr[OF s2]
  have byt: "bytes (mapping out') ! (t + n) = memory proc (bss_start info + of_nat n)"
    if n: "n < unat (bss_size info)" and nd: "\<not> debug_fields (mapping out') (t + n)" for n
  proof -
    from nd have "bytes (out st2) ! (t + n) = bytes (out st1) ! (t + n)"
      using q(8) by (simp add: o)
    also have "\<dots> = proc_bytes proc (bss_start info) (unat (bss_size info)) ! n"
      using sg _ n by (rule seg_nth) simp
    also have "\<dots> = memory proc (bss_start info + of_nat n)"
      using n by (rule proc_bytes_nth)
    finally show ?thesis by (simp add: o)
  qed
  have e: "bss_start info + bss_size info = max (my_endbss proc) (my_endbss_static proc)"
    unfolding st sz by simp
  from c byt show ?thesis
    unfolding l q(2) using st e static by blast
qed

theorem merged_bss_dumped_once_witness:
  "get_section_info False ex_proc ex_in = Inr ex_info \<and>
   my_begbss ex_proc \<le> 0x402008 \<and> 0x402008 < my_endbss ex_proc \<and>
   my_begbss_static ex_proc \<le> 0x402008 \<and> 0x402008 < my_endbss_static ex_proc \<and>
   bss_start ex_info = 0x402004 \<and> bss_start ex_info + bss_size ex_info = 0x402020 \<and>
   bss_section_static ex_info = None \<and>
   (\<exists>out' log t. copy_executable_and_dump_data ex_proc ex_info ex_in ex_out = Inr (out', log) \<and>
      filter is_bss_dump log =
        [\<lparr> message = DumpingBssData, source = 0x402004, target = t, count = 28 \<rparr>] \<and>
      bytes (mapping out') ! t = memory ex_proc 0x402004 \<and>
      bytes (mapping out') ! (t + 27) = memory ex_proc 0x40201F)"
proof -
  from ex_dump obtain st st' where
    s0: "copy_image ex_proc ex_info ex_in ex_out = Inr st"
    and p0: "patch_offsets ex_in st = Inr st'"
    and run: "copy_executable_and_dump_data ex_proc ex_info ex_in ex_out
       = Inr (ex_out\<lparr> size_bytes := 232, mapping := out st' \<rparr>, chunks st')"
    and g: "DebugSize (nt (out st')) = 0"
    by (elim exE conjE)
  have x: "my_begbss ex_proc \<le> 0x402008" "0x402008 < my_endbss ex_proc"
    "my_begbss_static ex_proc \<le> 0x402008" "0x402008 < my_endbss_static ex_proc"
    by (simp_all add: ex_proc_def)
  have a: "0 < unat (FileAlignment (nt (mapping ex_in)))" by (simp add: ex_simps)
  have v: "unat (bss_start ex_info) = 0x402004" "unat (bss_size ex_info) = 28"
    "bss_start ex_info = 0x402004" "bss_start ex_info + bss_size ex_info = 0x402020"
    "bss_section_static ex_info = None"
    by (simp_all add: ex_info_def)
  have nd: "\<not> debug_fields (mapping (ex_out\<lparr> size_bytes := 232, mapping := out st' \<rparr>)) y" for y
    using g by (simp add: debug_fields_def split: option.splits)
  from merged_bss_dumped_once[OF ex_get_section_info x a run] obtain t where
    c0: "filter is_bss_dump (chunks st') =
             [\<lparr> message = DumpingBssData, source = unat (bss_start ex_info), target = t,
                 count = unat (bss_size ex_info) \<rparr>]"
    and b0: "\<forall>n<unat (bss_size ex_info).
               \<not> debug_fields (mapping (ex_out\<lparr> size_bytes := 232, mapping := out st' \<rparr>)) (t + n) \<longrightarrow>
               bytes (mapping (ex_out\<lparr> size_bytes := 232, mapping := out st' \<rparr>)) ! (t + n)
               = memory ex_proc (bss_start ex_info + of_nat n)"
    by blast
  have c: "filter is_bss_dump (chunks st') =
             [\<lparr> message = DumpingBssData, source = 0x402004, target = t, count = 28 \<rparr>]"
    using c0 unfolding v(1,2) .
  from b0[rule_format, of 0] b0[rule_format, of 27] nd
  have b': "bytes (mapping (ex_out\<lparr> size_bytes := 232, mapping := out st' \<rparr>)) ! t
              = memory ex_proc 0x402004"
    "bytes (mapping (ex_out\<lparr> size_bytes := 232, mapping := out st' \<rparr>)) ! (t + 27)
              = memory ex_proc 0x40201F"
    unfolding v(2) by (simp_all add: v(3))
  show ?thesis
    by (intro conjI exI[of _ "ex_out\<lparr> size_bytes := 232, mapping := out st' \<rparr>"]
        exI[of _ "chunks st'"] exI[of _ t])
      (rule ex_get_section_info x v(3-5) run c b')+
qed

subsection \<open>What the dump keeps of the source\<close>














end
